theory Spec2Isabelle
  imports Main "HOL-Library.Sublist"
begin

section \<open>Text primitives of the snapshot script\<close>

text \<open>
  The embedding follows \<^verbatim>\<open>scripts/prepare_db_snapshots.py\<close>. Python \<^verbatim>\<open>str\<close> and
  \<^verbatim>\<open>bytes\<close> values are HOL strings, one \<^typ>\<open>char\<close> per code point below 256 (for
  bytes: per byte). Library functions the script calls (\<^verbatim>\<open>str.split\<close>, \<^verbatim>\<open>str.strip\<close>,
  \<^verbatim>\<open>str.join\<close>, \<^verbatim>\<open>json.dumps\<close>, \<^verbatim>\<open>Path.with_suffix\<close>) are written out as the
  functions they compute.
\<close>

type_synonym bytes = string

abbreviation LF :: char where "LF \<equiv> CHR 0x0A"
abbreviation CR :: char where "CR \<equiv> CHR 0x0D"

text \<open>\<^verbatim>\<open>s.split(sep)\<close> for a one-character separator: the pieces between the
  separators; never the empty list. \<^verbatim>\<open>content.split('\n')\<close> is \<open>split_nl\<close>.\<close>

fun split_on :: "char \<Rightarrow> string \<Rightarrow> string list" where
  "split_on sep [] = [[]]"
| "split_on sep (c # cs) =
     (if c = sep then [] # split_on sep cs
      else (case split_on sep cs of [] \<Rightarrow> [[c]] | l # ls \<Rightarrow> (c # l) # ls))"

definition split_nl :: "string \<Rightarrow> string list" where
  "split_nl content = split_on LF content"

text \<open>\<^verbatim>\<open>'\n'.join(sql_lines)\<close>.\<close>

fun join_nl :: "string list \<Rightarrow> string" where
  "join_nl [] = []"
| "join_nl [l] = l"
| "join_nl (l # ls) = l @ LF # join_nl ls"

text \<open>
  \<^verbatim>\<open>str.isspace\<close> on the code points below 256: TAB, LF, VT, FF, CR, the separators
  FS, GS, RS, US, the space, NEL (0x85) and the no-break space (0xA0).
\<close>

definition py_isspace :: "char \<Rightarrow> bool" where
  "py_isspace c \<longleftrightarrow>
     (let n = (of_char c :: nat)
      in (9 \<le> n \<and> n \<le> 13) \<or> (28 \<le> n \<and> n \<le> 32) \<or> n = 133 \<or> n = 160)"

text \<open>\<^verbatim>\<open>line.strip()\<close> removes whitespace at both ends.\<close>

definition py_strip :: "string \<Rightarrow> string" where
  "py_strip s = rev (dropWhile py_isspace (rev (dropWhile py_isspace s)))"

text \<open>\<^verbatim>\<open>s.startswith('{')\<close>.\<close>

definition startswith_brace :: "string \<Rightarrow> bool" where
  "startswith_brace s = (case s of [] \<Rightarrow> False | c # _ \<Rightarrow> c = CHR ''{'')"

text \<open>The test of line 136: \<^verbatim>\<open>line.strip().startswith('{')\<close>.\<close>

definition is_json_line :: "string \<Rightarrow> bool" where
  "is_json_line line = startswith_brace (py_strip line)"

section \<open>Metadata Framer: the header line\<close>

abbreviation DQ :: char where "DQ \<equiv> CHR 0x22"
abbreviation BSL :: char where "BSL \<equiv> CHR 0x5C"

text \<open>The decimal text of a Python \<^verbatim>\<open>int\<close>, as \<^verbatim>\<open>json.dumps\<close> writes it.\<close>

definition digit_char :: "nat \<Rightarrow> char" where
  "digit_char d = char_of (48 + d)"

fun show_nat :: "nat \<Rightarrow> string" where
  "show_nat n = (if n < 10 then [digit_char n] else show_nat (n div 10) @ [digit_char (n mod 10)])"

declare show_nat.simps [simp del]

definition show_int :: "int \<Rightarrow> string" where
  "show_int i = (if i < 0 then CHR ''-'' # show_nat (nat (- i)) else show_nat (nat i))"

text \<open>
  The string encoder of \<^verbatim>\<open>json.dumps\<close> with its default \<^verbatim>\<open>ensure_ascii=True\<close>: the
  quote and the backslash get a backslash, the five control characters with a short
  form get it, printable ASCII is copied, every other code point below 256 becomes
  \<^verbatim>\<open>\u00xx\<close> in lower-case hexadecimal.
\<close>

definition hex_digit :: "nat \<Rightarrow> char" where
  "hex_digit d = (if d < 10 then char_of (48 + d) else char_of (87 + d))"

definition json_escape_char :: "char \<Rightarrow> string" where
  "json_escape_char c =
     (let n = (of_char c :: nat) in
      if c = DQ then [BSL, DQ]
      else if c = BSL then [BSL, BSL]
      else if c = LF then [BSL, CHR ''n'']
      else if c = CR then [BSL, CHR ''r'']
      else if c = CHR 0x09 then [BSL, CHR ''t'']
      else if c = CHR 0x0C then [BSL, CHR ''f'']
      else if c = CHR 0x08 then [BSL, CHR ''b'']
      else if 32 \<le> n \<and> n \<le> 126 then [c]
      else [BSL, CHR ''u'', CHR ''0'', CHR ''0'', hex_digit (n div 16), hex_digit (n mod 16)])"

definition json_string :: "string \<Rightarrow> string" where
  "json_string s = DQ # concat (map json_escape_char s) @ [DQ]"

text \<open>
  Lines 83 to 88: \<^verbatim>\<open>json.dumps(metadata, separators=(',', ':'))\<close> of the dictionary
  with the keys \<^verbatim>\<open>timestamp\<close>, \<^verbatim>\<open>source\<close>, \<^verbatim>\<open>size_before_optimization\<close> in insertion
  order, then the line feed.
\<close>

definition json_dumps_metadata :: "int \<Rightarrow> string \<Rightarrow> int \<Rightarrow> string" where
  \<open>json_dumps_metadata timestamp source size_before_optimization =
     ''{"timestamp":'' @ show_int timestamp @
     '',"source":'' @ json_string source @
     '',"size_before_optimization":'' @ show_int size_before_optimization @ ''}''\<close>

definition metadata_line :: "int \<Rightarrow> string \<Rightarrow> int \<Rightarrow> string" where
  "metadata_line timestamp source size_before_optimization =
     json_dumps_metadata timestamp source size_before_optimization @ [LF]"

text \<open>Line 92: \<^verbatim>\<open>combined_bytes = metadata_bytes + dump_bytes + b'\n\n'\<close>. The metadata
  line is ASCII, so its UTF-8 encoding is the line itself.\<close>

definition combined_bytes :: "string \<Rightarrow> bytes \<Rightarrow> bytes" where
  "combined_bytes metadata_ln dump_bytes = metadata_ln @ dump_bytes @ [LF, LF]"

subsection \<open>Reading a header line back\<close>

text \<open>
  The script never parses a header; a reader of the archive does, with a JSON parser.
  \<open>json_loads_object\<close> is \<^verbatim>\<open>json.loads\<close> on the documents the Framer can emit: an
  object whose values are integers or strings, with JSON whitespace allowed between
  tokens, the escapes of RFC 8259 in strings, no leading zeros in numbers. Code points
  of 256 and more are outside the string model and make it fail.
\<close>

datatype jval = JInt int | JStr string

definition json_ws :: "char \<Rightarrow> bool" where
  "json_ws c \<longleftrightarrow> c = CHR 0x20 \<or> c = CHR 0x09 \<or> c = LF \<or> c = CR"

definition skip_ws :: "string \<Rightarrow> string" where
  "skip_ws s = dropWhile json_ws s"

definition hex_val :: "char \<Rightarrow> nat option" where
  "hex_val c =
     (let n = (of_char c :: nat) in
      if 48 \<le> n \<and> n \<le> 57 then Some (n - 48)
      else if 97 \<le> n \<and> n \<le> 102 then Some (n - 87)
      else if 65 \<le> n \<and> n \<le> 70 then Some (n - 55)
      else None)"

definition hex4 :: "char \<Rightarrow> char \<Rightarrow> char \<Rightarrow> char \<Rightarrow> nat option" where
  "hex4 a b c d =
     (case (hex_val a, hex_val b, hex_val c, hex_val d) of
        (Some x, Some y, Some z, Some w) \<Rightarrow> Some (((x * 16 + y) * 16 + z) * 16 + w)
      | _ \<Rightarrow> None)"

definition simple_escape :: "char \<Rightarrow> char option" where
  "simple_escape e =
     (if e = DQ then Some DQ
      else if e = BSL then Some BSL
      else if e = CHR ''/'' then Some (CHR ''/'')
      else if e = CHR ''n'' then Some LF
      else if e = CHR ''r'' then Some CR
      else if e = CHR ''t'' then Some (CHR 0x09)
      else if e = CHR ''f'' then Some (CHR 0x0C)
      else if e = CHR ''b'' then Some (CHR 0x08)
      else None)"

text \<open>The text of a string after its opening quote: the decoded characters and what
  follows the closing quote.\<close>

fun read_string_body :: "string \<Rightarrow> (string \<times> string) option" where
  "read_string_body [] = None"
| "read_string_body [c] = (if c = DQ then Some ([], []) else None)"
| "read_string_body (c # e # r) =
     (if c = DQ then Some ([], e # r)
      else if c = BSL then
        (if e = CHR ''u'' then
           (case r of
              h1 # h2 # h3 # h4 # r' \<Rightarrow>
                (case hex4 h1 h2 h3 h4 of
                   None \<Rightarrow> None
                 | Some n \<Rightarrow>
                     if n < 256 then map_option (apfst ((#) (char_of n))) (read_string_body r')
                     else None)
            | _ \<Rightarrow> None)
         else
           (case simple_escape e of
              None \<Rightarrow> None
            | Some x \<Rightarrow> map_option (apfst ((#) x)) (read_string_body r)))
      else if (of_char c :: nat) < 32 then None
      else map_option (apfst ((#) c)) (read_string_body (e # r)))"

definition is_digit :: "char \<Rightarrow> bool" where
  "is_digit c \<longleftrightarrow> 48 \<le> (of_char c :: nat) \<and> (of_char c :: nat) \<le> 57"

definition digits_val :: "string \<Rightarrow> nat" where
  "digits_val ds = foldl (\<lambda>a c. 10 * a + ((of_char c :: nat) - 48)) 0 ds"

definition read_nat :: "string \<Rightarrow> (nat \<times> string) option" where
  "read_nat s =
     (let ds = takeWhile is_digit s; r = dropWhile is_digit s in
      if ds = [] then None
      else if hd ds = CHR ''0'' \<and> length ds > 1 then None
      else Some (digits_val ds, r))"

definition read_value :: "string \<Rightarrow> (jval \<times> string) option" where
  "read_value s =
     (case s of
        [] \<Rightarrow> None
      | c # r \<Rightarrow>
          if c = DQ then map_option (apfst JStr) (read_string_body r)
          else if c = CHR ''-'' then map_option (apfst (\<lambda>n. JInt (- int n))) (read_nat r)
          else map_option (apfst (\<lambda>n. JInt (int n))) (read_nat s))"

definition read_pair :: "string \<Rightarrow> ((string \<times> jval) \<times> string) option" where
  "read_pair s =
     (case s of
        [] \<Rightarrow> None
      | c # r \<Rightarrow>
          if c \<noteq> DQ then None
          else (case read_string_body r of
                  None \<Rightarrow> None
                | Some (k, r1) \<Rightarrow>
                    (case skip_ws r1 of
                       [] \<Rightarrow> None
                     | c1 # r2 \<Rightarrow>
                         if c1 \<noteq> CHR '':'' then None
                         else (case read_value (skip_ws r2) of
                                 None \<Rightarrow> None
                               | Some (v, r3) \<Rightarrow> Some ((k, v), r3)))))"

text \<open>Members up to the closing brace; the first argument bounds their number.\<close>

fun read_members :: "nat \<Rightarrow> string \<Rightarrow> ((string \<times> jval) list \<times> string) option" where
  "read_members 0 s = None"
| "read_members (Suc k) s =
     (case read_pair s of
        None \<Rightarrow> None
      | Some (kv, r) \<Rightarrow>
          (case skip_ws r of
             [] \<Rightarrow> None
           | c # r' \<Rightarrow>
               if c = CHR '','' then map_option (apfst ((#) kv)) (read_members k (skip_ws r'))
               else if c = CHR ''}'' then Some ([kv], r')
               else None))"

definition json_loads_object :: "string \<Rightarrow> (string \<times> jval) list option" where
  "json_loads_object s =
     (case skip_ws s of
        [] \<Rightarrow> None
      | c # r \<Rightarrow>
          if c \<noteq> CHR ''{'' then None
          else (case skip_ws r of
                  [] \<Rightarrow> None
                | c1 # r1 \<Rightarrow>
                    if c1 = CHR ''}'' then (if skip_ws r1 = [] then Some [] else None)
                    else (case read_members (length s) (c1 # r1) of
                            None \<Rightarrow> None
                          | Some (kvs, rest) \<Rightarrow> if skip_ws rest = [] then Some kvs else None)))"

text \<open>The three values of a header line, read back; a later duplicate of a key wins, as
  in a Python dictionary.\<close>

definition parse_metadata :: "string \<Rightarrow> (int \<times> string \<times> int) option" where
  "parse_metadata line =
     (case json_loads_object line of
        None \<Rightarrow> None
      | Some kvs \<Rightarrow>
          (case (map_of (rev kvs) ''timestamp'', map_of (rev kvs) ''source'',
                 map_of (rev kvs) ''size_before_optimization'') of
             (Some (JInt t), Some (JStr src), Some (JInt z)) \<Rightarrow> Some (t, src, z)
           | _ \<Rightarrow> None))"

section \<open>Paths\<close>

text \<open>
  A path is the list of its components below the file-system root, as \<^verbatim>\<open>pathlib\<close>
  holds an absolute POSIX path; the last component is \<^verbatim>\<open>Path.name\<close>.
\<close>

type_synonym path = "string list"

datatype exn =
    CalledProcessError
  | TypeError
  | ValueError
  | FileNotFoundError
  | OSError
  | SqliteError
  | BadGzipFile
  | UnicodeError

text \<open>\<^verbatim>\<open>name.rfind(c)\<close>: the index of the last occurrence.\<close>

fun rfind :: "char \<Rightarrow> string \<Rightarrow> nat option" where
  "rfind c [] = None"
| "rfind c (x # xs) =
     (case rfind c xs of
        Some i \<Rightarrow> Some (Suc i)
      | None \<Rightarrow> if x = c then Some 0 else None)"

text \<open>\<^verbatim>\<open>Path.suffix\<close>: the name from its last dot on, unless that dot opens or ends
  the name.\<close>

definition py_suffix :: "string \<Rightarrow> string" where
  "py_suffix name =
     (case rfind (CHR ''.'') name of
        None \<Rightarrow> []
      | Some i \<Rightarrow> if 0 < i \<and> i < length name - 1 then drop i name else [])"

text \<open>\<^verbatim>\<open>Path.stem\<close>: the name without that suffix.\<close>

definition py_stem :: "string \<Rightarrow> string" where
  "py_stem name = (if py_suffix name = [] then name
                   else take (length name - length (py_suffix name)) name)"

definition name_with_suffix :: "string \<Rightarrow> string \<Rightarrow> string" where
  "name_with_suffix name sfx =
     (let old_suffix = py_suffix name
      in if old_suffix = [] then name @ sfx
         else take (length name - length old_suffix) name @ sfx)"

text \<open>\<^verbatim>\<open>Path.with_suffix(suffix)\<close> for a well-formed suffix (the script passes
  \<^verbatim>\<open>".sql.gz"\<close> and \<^verbatim>\<open>".vacuuming"\<close>): a path with an empty name raises
  \<^verbatim>\<open>ValueError\<close>.\<close>

definition with_suffix :: "path \<Rightarrow> string \<Rightarrow> exn + path" where
  "with_suffix p sfx =
     (if p = [] \<or> last p = [] then Inl ValueError
      else Inr (butlast p @ [name_with_suffix (last p) sfx]))"

text \<open>\<^verbatim>\<open>str(path)\<close>.\<close>

definition str_path :: "path \<Rightarrow> string" where
  "str_path p = (if p = [] then ''/'' else concat (map (\<lambda>c. CHR ''/'' # c) p))"

text \<open>The components \<^verbatim>\<open>pathlib\<close> reads from a string: the pieces between slashes,
  without the empty ones and the single dots.\<close>

definition path_parts :: "string \<Rightarrow> string list" where
  "path_parts s = filter (\<lambda>c. c \<noteq> [] \<and> c \<noteq> ''.'') (split_on (CHR ''/'') s)"

text \<open>\<^verbatim>\<open>base / s\<close>, and a command-line path taken relative to the working directory:
  an absolute string replaces the base.\<close>

definition pjoin :: "path \<Rightarrow> string \<Rightarrow> path" where
  "pjoin base s =
     (case s of
        [] \<Rightarrow> base
      | c # _ \<Rightarrow> if c = CHR ''/'' then path_parts s else base @ path_parts s)"

section \<open>The world: files, output, and the programs called\<close>

text \<open>
  A file is a sequence of segments. \<open>Member p\<close> is one complete gzip member whose
  plaintext is \<open>p\<close>; \<open>Raw b\<close> is any other run of bytes \<open>b\<close> (a database image, a torn
  write). The file system holds regular files only.
\<close>

datatype seg = Raw bytes | Member bytes

type_synonym fcontent = "seg list"

datatype action = Updated | Created

datatype msg =
    Error_dumping path exn
  | Unexpected_error path exn
  | Snapshot_report action string nat nat
  | No_databases_found
  | Success_count nat
  | Raw_retained
  | Usage string
  | Not_found path
  | Restored path path
  | Error_restoring path exn

text \<open>The external programs run: the \<^verbatim>\<open>sqlite3 <db> .dump\<close> subprocess and
  \<^verbatim>\<open>executescript\<close> with its script.\<close>

datatype call = Dump_call path | Script_call path string

record world =
  files :: "path \<rightharpoonup> fcontent"
  log :: "msg list"
  calls :: "call list"

subsection \<open>What the environment decides\<close>

datatype into_result = Into_done fcontent | Into_raised "fcontent option"

datatype dump_result = Dump_ok bytes | Dump_exit_nonzero | Dump_cannot_run

datatype gz_outcome = Gz_ok | Gz_type_error | Gz_os_error "fcontent option"

text \<open>
  Every call that leaves the script (SQLite, the operating system, the subprocess, the
  clock) has its outcome here, as a function of the database path and, where the call
  reads it, of the file's content.
  \<^item> \<open>pragma_optimize\<close>, \<open>vacuum\<close>: the database file afterwards, and whether the
    statement raised.
  \<^item> \<open>vacuum_into\<close>: the compacted copy written (\<open>Into_done\<close>), or a raise that leaves
    the target untouched (\<open>Into_raised None\<close>) or holding what was written so far.
  \<^item> \<open>sql_literal_target\<close>: the file SQLite writes for a temporary name that contains a
    single quote, where the f-string of line 65 is no longer the literal of that name.
  \<^item> \<open>gzip_mtime\<close>, \<open>gzip_plain\<close>: the two attempts of lines 96 and 100; \<open>Gz_os_error\<close>
    carries the bytes that reached the file before the failure, if it was opened.
  \<^item> \<open>gz_len\<close>: the length of the gzip member for a plaintext.
  \<^item> \<open>stat_raises\<close>: the operating system refuses to examine the path (a symbolic
    link into a directory that may not be searched, an I/O error); \<^verbatim>\<open>Path.exists()\<close>
    re-raises that error.
  \<^item> \<open>stdout_rejects\<close>: the codec of standard output cannot encode the text.
\<close>

record env =
  root :: path
  cwd :: path
  gz_len :: "bytes \<Rightarrow> nat"
  stat_raises :: "path \<Rightarrow> bool"
  stdout_rejects :: "string \<Rightarrow> bool"
  connect_fails :: "path \<Rightarrow> bool"
  pragma_optimize :: "path \<Rightarrow> fcontent \<Rightarrow> fcontent \<times> bool"
  commit_fails :: "path \<Rightarrow> bool"
  sql_literal_target :: "string \<Rightarrow> path option"
  vacuum_into :: "path \<Rightarrow> fcontent \<Rightarrow> into_result"
  replace_fails :: "path \<Rightarrow> path \<Rightarrow> bool"
  reconnect_fails :: "path \<Rightarrow> bool"
  vacuum :: "path \<Rightarrow> fcontent \<Rightarrow> fcontent \<times> bool"
  sqlite3_dump :: "path \<Rightarrow> fcontent \<Rightarrow> dump_result"
  clock :: "path \<Rightarrow> int"
  gzip_mtime :: "path \<Rightarrow> gz_outcome"
  gzip_plain :: "path \<Rightarrow> gz_outcome"
  gz_read_fails :: "path \<Rightarrow> bool"
  locale_decode :: "bytes \<Rightarrow> string option"
  restore_connect_fails :: "path \<Rightarrow> bool"
  executescript :: "path \<Rightarrow> fcontent option \<Rightarrow> string \<Rightarrow> fcontent option \<times> bool"
  stdout_encodes_checkmark :: bool

subsection \<open>File operations\<close>

text \<open>The file map holds the path: a regular file that can be examined and read. This
  is the state of the file system, as SQLite finds it; the call \<^verbatim>\<open>exists()\<close> of the
  script follows.\<close>

definition exists_path :: "world \<Rightarrow> path \<Rightarrow> bool" where
  "exists_path w p \<longleftrightarrow> files w p \<noteq> None"

text \<open>
  \<^verbatim>\<open>path.exists()\<close>: \<^verbatim>\<open>True\<close> for a file of the map. For any other path the operating
  system either answers that nothing is there, and the result is \<^verbatim>\<open>False\<close>, or refuses
  the \<^verbatim>\<open>stat\<close> call, and \<^verbatim>\<open>pathlib\<close> lets that error (a \<^verbatim>\<open>PermissionError\<close>) through.
\<close>

definition path_exists :: "env \<Rightarrow> world \<Rightarrow> path \<Rightarrow> exn + bool" where
  "path_exists E w p =
     (case files w p of
        Some f \<Rightarrow> Inr True
      | None \<Rightarrow> if stat_raises E p then Inl OSError else Inr False)"

text \<open>
  \<^verbatim>\<open>print\<close> to standard output raises \<^verbatim>\<open>UnicodeEncodeError\<close> when the text has a
  character outside ASCII that the codec of standard output cannot encode. The
  argument is the part of the message that is not a literal of the script: a file name
  or \<^verbatim>\<open>sys.argv[0]\<close>. The messages of lines 181, 184 and 185 are ASCII, and standard
  error escapes what it cannot encode, so the messages of the handlers do not raise it.
\<close>

definition print_raises :: "env \<Rightarrow> string \<Rightarrow> bool" where
  "print_raises E s \<longleftrightarrow> \<not> list_all (\<lambda>c. (of_char c :: nat) < 128) s \<and> stdout_rejects E s"

definition read_file :: "world \<Rightarrow> path \<Rightarrow> fcontent" where
  "read_file w p = (case files w p of None \<Rightarrow> [] | Some f \<Rightarrow> f)"

definition write_file :: "path \<Rightarrow> fcontent \<Rightarrow> world \<Rightarrow> world" where
  "write_file p f w = w\<lparr>files := (files w)(p \<mapsto> f)\<rparr>"

definition say :: "msg \<Rightarrow> world \<Rightarrow> world" where
  "say m w = w\<lparr>log := log w @ [m]\<rparr>"

definition seg_len :: "env \<Rightarrow> seg \<Rightarrow> nat" where
  "seg_len E s = (case s of Raw b \<Rightarrow> length b | Member p \<Rightarrow> gz_len E p)"

text \<open>\<^verbatim>\<open>path.stat().st_size\<close> of a file that exists.\<close>

definition st_size :: "env \<Rightarrow> fcontent \<Rightarrow> nat" where
  "st_size E f = sum_list (map (seg_len E) f)"

section \<open>Compactor\<close>

text \<open>Lines 58 to 61: \<^verbatim>\<open>PRAGMA optimize\<close>, its exception swallowed.\<close>

definition pragma_step :: "env \<Rightarrow> path \<Rightarrow> world \<Rightarrow> world" where
  "pragma_step E db_path w =
     (case pragma_optimize E db_path (read_file w db_path) of
        (f, raised) \<Rightarrow> write_file db_path f w)"

text \<open>
  Line 65: \<^verbatim>\<open>VACUUM INTO '<temp_file.name>'\<close>. The statement names the file by its
  last component only, so SQLite resolves it against the working directory. SQLite
  refuses a target that exists and is not empty. The result is the world and whether
  the statement raised.
\<close>

definition into_target :: "env \<Rightarrow> string \<Rightarrow> path option" where
  "into_target E name =
     (if CHR 0x27 \<in> set name then sql_literal_target E name else Some (cwd E @ [name]))"

definition vacuum_into_step :: "env \<Rightarrow> path \<Rightarrow> string \<Rightarrow> world \<Rightarrow> world \<times> bool" where
  "vacuum_into_step E db_path temp_name w =
     (case into_target E temp_name of
        None \<Rightarrow> (w, True)
      | Some target \<Rightarrow>
          if exists_path w target \<and> 0 < st_size E (read_file w target) then (w, True)
          else (case vacuum_into E db_path (read_file w db_path) of
                  Into_done compacted \<Rightarrow> (write_file target compacted w, False)
                | Into_raised None \<Rightarrow> (w, True)
                | Into_raised (Some torn) \<Rightarrow> (write_file target torn w, True)))"

text \<open>Line 67: \<^verbatim>\<open>temp_file.replace(db_path)\<close>, that is \<^verbatim>\<open>os.replace\<close>: a missing
  source raises \<^verbatim>\<open>FileNotFoundError\<close>, the operating system may refuse, otherwise the
  source takes the place of the destination.\<close>

definition replace_step :: "env \<Rightarrow> path \<Rightarrow> path \<Rightarrow> world \<Rightarrow> world \<times> exn option" where
  "replace_step E src dst w =
     (case files w src of
        None \<Rightarrow> (w, Some FileNotFoundError)
      | Some f \<Rightarrow>
          if replace_fails E src dst then (w, Some OSError)
          else (w\<lparr>files := ((files w)(src := None))(dst \<mapsto> f)\<rparr>, None))"

text \<open>
  Lines 63 to 69, the body of the inner \<^verbatim>\<open>try\<close>: the world afterwards, whether an
  exception left the block, and whether \<^verbatim>\<open>con\<close> is an open connection then.
  \<^verbatim>\<open>con.close()\<close> of line 66 does not raise; after it \<^verbatim>\<open>con\<close> stays closed unless
  line 68 opens a new connection.
\<close>

definition atomic_compaction :: "env \<Rightarrow> path \<Rightarrow> world \<Rightarrow> world \<times> bool \<times> bool" where
  "atomic_compaction E db_path w =
     (case with_suffix db_path ''.vacuuming'' of
        Inl e \<Rightarrow> (w, True, True)
      | Inr temp_file \<Rightarrow>
          (case vacuum_into_step E db_path (last temp_file) w of
             (w1, True) \<Rightarrow> (w1, True, True)
           | (w1, False) \<Rightarrow>
               (case replace_step E temp_file db_path w1 of
                  (w2, Some e) \<Rightarrow> (w2, True, False)
                | (w2, None) \<Rightarrow>
                    if reconnect_fails E db_path then (w2, True, False)
                    else (w2, False, True))))"

text \<open>
  Lines 71 to 75, the handler of that \<^verbatim>\<open>try\<close>: \<^verbatim>\<open>VACUUM\<close> in place and a commit,
  every exception swallowed. On a closed connection \<^verbatim>\<open>cur.execute\<close> raises at once
  and nothing is done. The commit changes no file, whether it raises or not.
\<close>

definition fallback_vacuum :: "env \<Rightarrow> path \<Rightarrow> bool \<Rightarrow> world \<Rightarrow> world" where
  "fallback_vacuum E db_path con_open w =
     (if \<not> con_open then w
      else (case vacuum E db_path (read_file w db_path) of
              (f, raised) \<Rightarrow> write_file db_path f w))"

text \<open>
  Lines 55 to 76. \<^verbatim>\<open>sqlite3.connect\<close> (line 55) and \<^verbatim>\<open>con.commit()\<close> (line 62)
  stand outside the inner handlers: their exception leaves the compaction.
  \<^verbatim>\<open>prune_db\<close> is a no-op; \<^verbatim>\<open>con.close()\<close> of line 76 does not raise, also on a
  closed connection.
\<close>

definition compact :: "env \<Rightarrow> path \<Rightarrow> world \<Rightarrow> world \<times> exn option" where
  "compact E db_path w =
     (if connect_fails E db_path then (w, Some SqliteError)
      else
        (let w1 = pragma_step E db_path w
         in if commit_fails E db_path then (w1, Some SqliteError)
            else (case atomic_compaction E db_path w1 of
                    (w2, raised, con_open) \<Rightarrow>
                      (if raised then fallback_vacuum E db_path con_open w2 else w2, None))))"

section \<open>Dump Extractor, Archive Writer and the per-file cycle\<close>

text \<open>
  Lines 95 to 101: open the archive for append and write one member. \<open>gz_write\<close> is one
  attempt; \<open>gzip_append\<close> retries without \<^verbatim>\<open>mtime\<close> after a \<^verbatim>\<open>TypeError\<close>, which
  the constructor raises before it opens the file.
\<close>

definition append_segs :: "path \<Rightarrow> fcontent \<Rightarrow> world \<Rightarrow> world" where
  "append_segs p segs w = write_file p (read_file w p @ segs) w"

definition gz_write :: "gz_outcome \<Rightarrow> path \<Rightarrow> bytes \<Rightarrow> world \<Rightarrow> world \<times> exn option" where
  "gz_write r p data w =
     (case r of
        Gz_ok \<Rightarrow> (append_segs p [Member data] w, None)
      | Gz_type_error \<Rightarrow> (w, Some TypeError)
      | Gz_os_error None \<Rightarrow> (w, Some OSError)
      | Gz_os_error (Some torn) \<Rightarrow> (append_segs p torn w, Some OSError))"

definition gzip_append :: "env \<Rightarrow> path \<Rightarrow> bytes \<Rightarrow> world \<Rightarrow> world \<times> exn option" where
  "gzip_append E p data w =
     (case gz_write (gzip_mtime E p) p data w of
        (w1, Some e) \<Rightarrow> if e = TypeError then gz_write (gzip_plain E p) p data w1 else (w1, Some e)
      | (w1, None) \<Rightarrow> (w1, None))"

text \<open>
  Lines 55 to 107, the body of the outer \<^verbatim>\<open>try\<close>: compaction, the dump subprocess,
  the size read by \<^verbatim>\<open>db_path.stat()\<close> on line 80, the header, the append, the report.
  The report's sizes are kept as numbers; their rendering by \<^verbatim>\<open>human\<close> and the
  percentage are floating-point text and left out. The report of line 106 names the
  archive and is printed inside the \<^verbatim>\<open>try\<close>: when standard output cannot encode
  that name the \<^verbatim>\<open>print\<close> raises, after the record has been appended.
\<close>

definition snapshot_body :: "env \<Rightarrow> path \<Rightarrow> path \<Rightarrow> world \<Rightarrow> world \<times> exn option" where
  "snapshot_body E db_path dump_path w =
     (case compact E db_path w of
        (w1, Some e) \<Rightarrow> (w1, Some e)
      | (w1, None) \<Rightarrow>
          (let w2 = w1\<lparr>calls := calls w1 @ [Dump_call db_path]\<rparr>
           in case sqlite3_dump E db_path (read_file w2 db_path) of
                Dump_exit_nonzero \<Rightarrow> (w2, Some CalledProcessError)
              | Dump_cannot_run \<Rightarrow> (w2, Some FileNotFoundError)
              | Dump_ok dump_bytes \<Rightarrow>
                  (case files w2 db_path of
                     None \<Rightarrow> (w2, Some FileNotFoundError)
                   | Some f \<Rightarrow>
                       (let orig = st_size E f;
                            metadata_ln = metadata_line (clock E db_path) (str_path db_path) (int orig);
                            combined = combined_bytes metadata_ln dump_bytes
                        in case gzip_append E dump_path combined w2 of
                             (w3, Some e) \<Rightarrow> (w3, Some e)
                           | (w3, None) \<Rightarrow>
                               (case files w3 dump_path of
                                  None \<Rightarrow> (w3, Some FileNotFoundError)
                                | Some a \<Rightarrow>
                                    (let comp = st_size E a;
                                         action = (if comp > length combined then Updated else Created)
                                     in if print_raises E (last dump_path)
                                        then (w3, Some UnicodeError)
                                        else (say (Snapshot_report action (last dump_path) orig comp)
                                                w3, None)))))))"

text \<open>
  \<^verbatim>\<open>optimize_and_dump\<close>. A missing file returns \<^verbatim>\<open>None\<close> at once (line 52);
  \<^verbatim>\<open>db_path.exists()\<close> of line 51 and \<^verbatim>\<open>with_suffix\<close> of line 53 are outside the
  \<^verbatim>\<open>try\<close>, so their exceptions leave the function; every exception of the body is
  reported on standard error and turned into \<^verbatim>\<open>None\<close>.
\<close>

definition optimize_and_dump :: "env \<Rightarrow> path \<Rightarrow> world \<Rightarrow> world \<times> (exn + path option)" where
  "optimize_and_dump E db_path w =
     (case path_exists E w db_path of
        Inl e \<Rightarrow> (w, Inl e)
      | Inr present \<Rightarrow>
          if \<not> present then (w, Inr None)
          else (case with_suffix db_path ''.sql.gz'' of
                  Inl e \<Rightarrow> (w, Inl e)
                | Inr dump_path \<Rightarrow>
                    (case snapshot_body E db_path dump_path w of
                       (w', None) \<Rightarrow> (w', Inr (Some dump_path))
                     | (w', Some e) \<Rightarrow>
                         (if e = CalledProcessError
                          then (say (Error_dumping db_path e) w', Inr None)
                          else (say (Unexpected_error db_path e) w', Inr None)))))"

section \<open>Archive Reader: the latest dump of a decompressed archive\<close>

text \<open>
  Lines 131 to 147 of \<^verbatim>\<open>restore_latest\<close>: split the text into lines, collect the
  indices of the lines that pass the header test, and return what follows the last of
  them, joined again by line feeds; without such a line the whole text is returned.
\<close>

definition json_line_indices :: "string list \<Rightarrow> nat list" where
  "json_line_indices lines = filter (\<lambda>i. is_json_line (lines ! i)) [0..<length lines]"

definition latest_sql :: "string \<Rightarrow> string" where
  "latest_sql content =
     (let lines = split_nl content;
          idx = json_line_indices lines
      in if idx \<noteq> [] then
           (let last_json_idx = last idx;
                sql_lines = drop (last_json_idx + 1) lines
            in join_nl sql_lines)
         else content)"

text \<open>The plaintext of an archive to which the records \<open>(timestamp, source, size, dump)\<close>
  were appended in this order: each is one \<open>combined_bytes\<close>.\<close>

definition archive_text :: "(int \<times> string \<times> int \<times> bytes) list \<Rightarrow> string" where
  "archive_text recs =
     concat (map (\<lambda>(t, s, z, body). combined_bytes (metadata_line t s z) body) recs)"

subsection \<open>Reading the archive file and replaying the dump\<close>

text \<open>
  \<^verbatim>\<open>gzip.open(gz_path, 'rt')\<close> and \<^verbatim>\<open>f.read()\<close>: the members' plaintexts in order,
  decoded with the locale's codec (the identity on ASCII), with universal newlines:
  \<^verbatim>\<open>\r\n\<close> and a lone \<^verbatim>\<open>\r\<close> come out as \<^verbatim>\<open>\n\<close>. The gzip reader skips zero
  bytes that follow a member (padding); any other bytes that are no gzip member, and
  zero bytes before the first member, make the stream invalid. \<open>gunzip_from\<close> carries
  whether a member has been read.
\<close>

fun gunzip_from :: "bool \<Rightarrow> fcontent \<Rightarrow> bytes option" where
  "gunzip_from after_member [] = Some []"
| "gunzip_from after_member (Member p # f) = map_option ((@) p) (gunzip_from True f)"
| "gunzip_from after_member (Raw b # f) =
     (if b = [] \<or> (after_member \<and> list_all (\<lambda>c. c = CHR 0x00) b)
      then gunzip_from after_member f
      else None)"

definition gunzip :: "fcontent \<Rightarrow> bytes option" where
  "gunzip f = gunzip_from False f"

definition decode_text :: "env \<Rightarrow> bytes \<Rightarrow> string option" where
  "decode_text E bs =
     (if list_all (\<lambda>b. (of_char b :: nat) < 128) bs then Some bs else locale_decode E bs)"

fun universal_newlines :: "string \<Rightarrow> string" where
  "universal_newlines [] = []"
| "universal_newlines [c] = (if c = CR then [LF] else [c])"
| "universal_newlines (c # d # r) =
     (if c = CR then
        (if d = LF then LF # universal_newlines r else LF # universal_newlines (d # r))
      else c # universal_newlines (d # r))"

definition read_text :: "env \<Rightarrow> path \<Rightarrow> fcontent \<Rightarrow> exn + string" where
  "read_text E gz_path f =
     (if gz_read_fails E gz_path then Inl OSError
      else (case gunzip f of
              None \<Rightarrow> Inl BadGzipFile
            | Some bs \<Rightarrow>
                (case decode_text E bs of
                   None \<Rightarrow> Inl UnicodeError
                 | Some t \<Rightarrow> Inr (universal_newlines t))))"

text \<open>
  \<^verbatim>\<open>restore_latest\<close>. \<^verbatim>\<open>gz_path.exists()\<close> of line 123 is outside the \<^verbatim>\<open>try\<close>: its
  exception leaves the function. \<^verbatim>\<open>executescript\<close> gives the target file afterwards
  and whether it raised; the final \<^verbatim>\<open>print\<close> holds a check mark and the two names and
  is inside the \<^verbatim>\<open>try\<close>, so a standard output that cannot encode them turns a
  finished restore into \<^verbatim>\<open>False\<close>.
\<close>

definition path_name :: "path \<Rightarrow> string" where
  "path_name p = (if p = [] then [] else last p)"

definition restore_latest :: "env \<Rightarrow> path \<Rightarrow> path \<Rightarrow> world \<Rightarrow> world \<times> (exn + bool)" where
  "restore_latest E gz_path db_path w =
     (case path_exists E w gz_path of
        Inl e \<Rightarrow> (w, Inl e)
      | Inr present \<Rightarrow>
          if \<not> present then (say (Not_found gz_path) w, Inr False)
          else
            (case read_text E gz_path (read_file w gz_path) of
               Inl e \<Rightarrow> (say (Error_restoring db_path e) w, Inr False)
             | Inr content \<Rightarrow>
                 (let sql_dump = latest_sql content
                  in if restore_connect_fails E db_path
                     then (say (Error_restoring db_path SqliteError) w, Inr False)
                     else (case executescript E db_path (files w db_path) sql_dump of
                             (f', raised) \<Rightarrow>
                               (let w1 = w\<lparr>files := (files w)(db_path := f'),
                                          calls := calls w @ [Script_call db_path sql_dump]\<rparr>
                                in if raised
                                   then (say (Error_restoring db_path SqliteError) w1, Inr False)
                                   else if \<not> stdout_encodes_checkmark E \<or>
                                           print_raises E (path_name db_path) \<or>
                                           print_raises E (path_name gz_path)
                                   then (say (Error_restoring db_path UnicodeError) w1, Inr False)
                                   else (say (Restored db_path gz_path) w1, Inr True))))))"

section \<open>Orchestrator and entry point\<close>





section \<open>A sample repository\<close>

text \<open>
  Concrete inputs on which the definitions are run: a repository at \<^verbatim>\<open>/repo\<close> whose
  \<^verbatim>\<open>database.db\<close> holds four bytes, two of them free; an environment in which every
  call succeeds, the compacted copy holds the two live bytes, the dump is one
  \<^verbatim>\<open>COMMIT;\<close> line and the clock reads 1700000000; the record such a run appends.
\<close>

definition repo_db :: path where
  "repo_db = [''repo'', ''database.db'']"

definition repo_archive :: path where
  "repo_archive = [''repo'', ''database.sql.gz'']"

definition repo_temp :: path where
  "repo_temp = [''repo'', ''database.vacuuming'']"

definition sample_dump :: bytes where
  "sample_dump = ''COMMIT;'' @ [LF]"

definition quiet_env :: env where
  "quiet_env =
     \<lparr> root = [''repo''], cwd = [''repo''], gz_len = length,
       stat_raises = (\<lambda>p. False),
       stdout_rejects = (\<lambda>s. False),
       connect_fails = (\<lambda>p. False),
       pragma_optimize = (\<lambda>p f. (f, False)),
       commit_fails = (\<lambda>p. False),
       sql_literal_target = (\<lambda>n. None),
       vacuum_into = (\<lambda>p f. Into_done [Raw ''db'']),
       replace_fails = (\<lambda>src dst. False),
       reconnect_fails = (\<lambda>p. False),
       vacuum = (\<lambda>p f. (f, False)),
       sqlite3_dump = (\<lambda>p f. Dump_ok sample_dump),
       clock = (\<lambda>p. 1700000000),
       gzip_mtime = (\<lambda>p. Gz_ok),
       gzip_plain = (\<lambda>p. Gz_ok),
       gz_read_fails = (\<lambda>p. False),
       locale_decode = (\<lambda>b. None),
       restore_connect_fails = (\<lambda>p. False),
       executescript = (\<lambda>p f script. (Some [Raw script], False)),
       stdout_encodes_checkmark = True \<rparr>"

definition repo_world :: world where
  "repo_world = \<lparr> files = [repo_db \<mapsto> [Raw ''d-b-'']], log = [], calls = [] \<rparr>"

definition sample_record :: bytes where
  "sample_record = combined_bytes (metadata_line 1700000000 (str_path repo_db) 2) sample_dump"

definition archived_world :: world where
  "archived_world =
     \<lparr> files = [repo_db \<mapsto> [Raw ''d-b-''], repo_archive \<mapsto> [Member sample_record]],
       log = [], calls = [] \<rparr>"

definition padded_archive_world :: world where
  "padded_archive_world =
     \<lparr> files = [repo_db \<mapsto> [Raw ''d-b-''],
                 repo_archive \<mapsto> [Member sample_record, Raw [CHR 0x00, CHR 0x00]]],
       log = [], calls = [] \<rparr>"

definition legacy_world :: world where
  "legacy_world =
     \<lparr> files = [repo_archive \<mapsto> [Member (''BEGIN;'' @ [LF] @ ''COMMIT;'' @ [LF])]],
       log = [], calls = [] \<rparr>"

text \<open>
  Variants: a second database beside the first; environments in which exactly one call
  fails (the first connection, the dump subprocess, the dump of the first database only,
  the replacement of the database by the compacted copy, every optimisation statement,
  the examination of the first database's path); a world without files, and one that
  holds the second database only.
\<close>

definition repo_db2 :: path where
  "repo_db2 = [''repo'', ''database2.db'']"

definition repo_archive2 :: path where
  "repo_archive2 = [''repo'', ''database2.sql.gz'']"

definition two_db_world :: world where
  "two_db_world =
     \<lparr> files = [repo_db \<mapsto> [Raw ''d-b-''], repo_db2 \<mapsto> [Raw ''d-b-'']], log = [], calls = [] \<rparr>"

definition empty_world :: world where
  "empty_world = \<lparr> files = Map.empty, log = [], calls = [] \<rparr>"

definition first_dump_fails_env :: env where
  "first_dump_fails_env =
     quiet_env\<lparr>sqlite3_dump := \<lambda>p f. if p = repo_db then Dump_exit_nonzero else Dump_ok sample_dump\<rparr>"

definition connect_fails_env :: env where
  "connect_fails_env = quiet_env\<lparr>connect_fails := \<lambda>p. True\<rparr>"

definition dump_fails_env :: env where
  "dump_fails_env = quiet_env\<lparr>sqlite3_dump := \<lambda>p f. Dump_exit_nonzero\<rparr>"

definition replace_fails_env :: env where
  "replace_fails_env = quiet_env\<lparr>replace_fails := \<lambda>src dst. True\<rparr>"

definition stat_denied_env :: env where
  "stat_denied_env = quiet_env\<lparr>stat_raises := \<lambda>p. p = repo_db\<rparr>"

definition second_db_world :: world where
  "second_db_world = \<lparr> files = [repo_db2 \<mapsto> [Raw ''d-b-'']], log = [], calls = [] \<rparr>"

definition no_optimisation_env :: env where
  "no_optimisation_env =
     quiet_env\<lparr>pragma_optimize := \<lambda>p f. (f, True),
               vacuum_into := \<lambda>p f. Into_raised None,
               vacuum := \<lambda>p f. (f, True)\<rparr>"

section \<open>Properties of the text functions\<close>

subsection \<open>Lines and the latest dump\<close>


lemma split_on_ne: "split_on sep s \<noteq> []"
  by (induction s) (auto split: list.splits)

lemma split_nl_ne: "split_nl s \<noteq> []"
  by (simp add: split_nl_def split_on_ne)

lemma split_on_append: "split_on sep (x @ sep # y) = split_on sep x @ split_on sep y"
  by (induction x) (auto split: list.splits simp: split_on_ne)

lemma split_nl_append: "split_nl (x @ LF # y) = split_nl x @ split_nl y"
  by (simp add: split_nl_def split_on_append)

lemma split_nl_Nil: "split_nl [] = [[]]"
  by (simp add: split_nl_def)

lemma split_nl_Cons:
  "split_nl (c # cs) =
     (if c = LF then [] # split_nl cs
      else (case split_nl cs of [] \<Rightarrow> [[c]] | l # ls \<Rightarrow> (c # l) # ls))"
  by (simp add: split_nl_def)

lemma join_split: "join_nl (split_nl s) = s"
proof (induction s)
  case Nil show ?case by (simp add: split_nl_Nil)
next
  case (Cons c s)
  show ?case
  proof (cases "c = LF")
    case True
    then show ?thesis using Cons split_nl_ne[of s]
      by (cases "split_nl s") (auto simp: split_nl_Cons)
  next
    case False
    then show ?thesis using Cons split_nl_ne[of s]
      by (cases "split_nl s"; cases "tl (split_nl s)") (auto simp: split_nl_Cons)
  qed
qed

lemma no_LF_split: "LF \<notin> set s \<Longrightarrow> split_nl s = [s]"
  by (induction s) (auto simp: split_nl_Nil split_nl_Cons)

lemma indices_last:
  assumes "is_json_line m" and "\<forall>l \<in> set ys. \<not> is_json_line l"
  shows "json_line_indices (xs @ m # ys) \<noteq> [] \<and> last (json_line_indices (xs @ m # ys)) = length xs"
proof -
  let ?ls = "xs @ m # ys"
  let ?n = "Suc (length xs + length ys)"
  have len: "length ?ls = ?n" by simp
  have up: "[0..<?n] = [0..<length xs] @ length xs # [Suc (length xs)..<?n]"
  proof -
    have "[0..<?n] = [0..<length xs] @ [length xs..<?n]"
      using upt_add_eq_append[of 0 "length xs" "Suc (length ys)"] by simp
    also have "[length xs..<?n] = length xs # [Suc (length xs)..<?n]"
      by (rule upt_conv_Cons) simp
    finally show ?thesis .
  qed
  have tail: "filter (\<lambda>i. is_json_line (?ls ! i)) [Suc (length xs)..<?n] = []"
  proof -
    have "\<not> is_json_line (?ls ! i)" if "i \<in> set [Suc (length xs)..<?n]" for i
    proof -
      from that have "length xs < i" "i < ?n" by auto
      then have "?ls ! i = ys ! (i - Suc (length xs))" "i - Suc (length xs) < length ys"
        by (auto simp: nth_append nth_Cons')
      then show ?thesis using assms(2) by (metis nth_mem)
    qed
    then show ?thesis unfolding filter_empty_conv by blast
  qed
  have "json_line_indices ?ls =
      filter (\<lambda>i. is_json_line (?ls ! i)) [0..<length xs] @ [length xs]"
    unfolding json_line_indices_def len
    by (subst up) (simp only: filter_append filter.simps tail nth_append_length assms(1) if_True)
  then show ?thesis by simp
qed

lemma indices_none:
  "(\<forall>l \<in> set ls. \<not> is_json_line l) \<Longrightarrow> json_line_indices ls = []"
  by (simp add: json_line_indices_def filter_empty_conv)

lemma latest_sql_after_header:
  assumes "is_json_line m" and "LF \<notin> set m"
    and "\<forall>l \<in> set (split_nl tl'). \<not> is_json_line l"
    and "pre = [] \<or> (\<exists>p. pre = p @ [LF])"
  shows "latest_sql (pre @ m @ LF # tl') = tl'"
proof -
  obtain xs where sp: "split_nl (pre @ m @ LF # tl') = xs @ m # split_nl tl'"
  proof (cases "pre = []")
    case True
    then have "split_nl (pre @ m @ LF # tl') = [] @ m # split_nl tl'"
      by (simp add: split_nl_append no_LF_split assms(2))
    then show ?thesis using that by blast
  next
    case False
    then obtain p where "pre = p @ [LF]" using assms(4) by blast
    then have "split_nl (pre @ m @ LF # tl') = split_nl p @ m # split_nl tl'"
      by (simp add: split_nl_append no_LF_split assms(2))
    then show ?thesis using that by blast
  qed
  from indices_last[OF assms(1,3), of xs]
  show ?thesis
    unfolding latest_sql_def by (simp add: sp Let_def join_split)
qed

lemma latest_sql_legacy:
  "\<forall>l \<in> set (split_nl content). \<not> is_json_line l \<Longrightarrow> latest_sql content = content"
  unfolding latest_sql_def by (simp add: indices_none Let_def)

text \<open>The header test looks at the first character that is no whitespace.\<close>

lemma dropWhile_snoc_keep:
  "\<not> P c \<Longrightarrow> \<exists>xs. dropWhile P (ys @ [c]) = xs @ [c]"
  by (induction ys) auto

lemma is_json_line_first_char:
  "is_json_line line =
     (case dropWhile py_isspace line of [] \<Rightarrow> False | c # _ \<Rightarrow> c = CHR ''{'')"
proof (cases "dropWhile py_isspace line")
  case Nil
  have "py_strip line = []" unfolding py_strip_def Nil by simp
  then show ?thesis unfolding is_json_line_def Nil by (simp add: startswith_brace_def)
next
  case (Cons c r)
  then have nc: "\<not> py_isspace c" by (metis hd_dropWhile list.distinct(1) list.sel(1))
  from dropWhile_snoc_keep[of py_isspace c "rev r"] nc obtain xs where
    "dropWhile py_isspace (rev r @ [c]) = xs @ [c]" by blast
  then have "py_strip line = c # rev xs" by (simp add: py_strip_def Cons)
  then show ?thesis by (simp add: is_json_line_def startswith_brace_def Cons)
qed

subsection \<open>The header line and its reader\<close>

lemma of_char_lt_256: "(of_char (c::char) :: nat) < 256"
  by (cases c) (simp)

lemma hex_val_hex_digit: "d < 16 \<Longrightarrow> hex_val (hex_digit d) = Some d"
  by (auto simp: hex_val_def hex_digit_def Let_def)

lemma hex4_escape:
  "hex4 (CHR ''0'') (CHR ''0'') (hex_digit (of_char c div 16)) (hex_digit (of_char c mod 16))
     = Some (of_char c)"
proof -
  have "(of_char c :: nat) div 16 < 16" using of_char_lt_256[of c] by arith
  then show ?thesis
    by (simp add: hex4_def hex_val_hex_digit) (simp add: hex_val_def)
qed

lemma read_escape_char:
  "read_string_body (json_escape_char c @ x # xs) =
     map_option (apfst ((#) c)) (read_string_body (x # xs))"
proof -
  consider "c = DQ" | "c = BSL" | "c = LF" | "c = CR" | "c = CHR 0x09" | "c = CHR 0x0C"
    | "c = CHR 0x08"
    | "c \<notin> {DQ, BSL, LF, CR, CHR 0x09, CHR 0x0C, CHR 0x08}" "32 \<le> (of_char c :: nat)" "(of_char c :: nat) \<le> 126"
    | "c \<notin> {DQ, BSL, LF, CR, CHR 0x09, CHR 0x0C, CHR 0x08}" "\<not> (32 \<le> (of_char c :: nat) \<and> (of_char c :: nat) \<le> 126)"
    by blast
  then show ?thesis
  proof cases
    case 8
    then show ?thesis by (simp add: json_escape_char_def Let_def)
  next
    case 9
    then show ?thesis
      using hex4_escape[of c] of_char_lt_256[of c]
      by (simp add: json_escape_char_def Let_def)
  qed (simp_all add: json_escape_char_def Let_def simple_escape_def)
qed

lemma read_string_body_escape:
  "read_string_body (concat (map json_escape_char s) @ DQ # rest) = Some (s, rest)"
proof (induction s)
  case Nil
  show ?case by (cases rest) simp_all
next
  case (Cons c s)
  obtain x xs where t: "concat (map json_escape_char s) @ DQ # rest = x # xs"
    by (cases "concat (map json_escape_char s) @ DQ # rest") auto
  have "read_string_body (concat (map json_escape_char (c # s)) @ DQ # rest)
      = read_string_body (json_escape_char c @ x # xs)" using t by simp
  also have "\<dots> = map_option (apfst ((#) c)) (read_string_body (x # xs))"
    by (rule read_escape_char)
  also have "\<dots> = Some (c # s, rest)" using Cons t by simp
  finally show ?case .
qed

lemma is_digit_digit_char: "d < 10 \<Longrightarrow> is_digit (digit_char d)"
  by (simp add: is_digit_def digit_char_def)

lemma digit_char_val: "d < 10 \<Longrightarrow> (of_char (digit_char d) :: nat) - 48 = d"
  by (simp add: digit_char_def)

lemma show_nat_digits: "\<forall>c \<in> set (show_nat n). is_digit c"
proof (induction n rule: show_nat.induct)
  case (1 n)
  show ?case
  proof (cases "n < 10")
    case True then show ?thesis by (subst show_nat.simps) (simp add: is_digit_digit_char)
  next
    case False
    then show ?thesis using 1 by (subst show_nat.simps) (simp add: is_digit_digit_char)
  qed
qed

lemma show_nat_ne: "show_nat n \<noteq> []"
  by (subst show_nat.simps) simp

lemma digits_val_snoc: "digits_val (ds @ [c]) = 10 * digits_val ds + ((of_char c :: nat) - 48)"
  by (simp add: digits_val_def)

lemma digits_val_show_nat: "digits_val (show_nat n) = n"
proof (induction n rule: show_nat.induct)
  case (1 n)
  show ?case
  proof (cases "n < 10")
    case True then show ?thesis
      by (subst show_nat.simps) (simp add: digits_val_def digit_char_val)
  next
    case False
    then show ?thesis using 1
      by (subst show_nat.simps) (simp add: digits_val_snoc digit_char_val)
  qed
qed

lemma show_nat_hd_zero: "hd (show_nat n) = CHR ''0'' \<Longrightarrow> length (show_nat n) = 1"
proof (induction n rule: show_nat.induct)
  case (1 n)
  show ?case
  proof (cases "n < 10")
    case True then show ?thesis by (subst show_nat.simps) simp
  next
    case False
    then have eq: "show_nat n = show_nat (n div 10) @ [digit_char (n mod 10)]"
      by (subst show_nat.simps) simp
    with "1.prems" have h: "hd (show_nat (n div 10)) = CHR ''0''"
      by (simp add: show_nat_ne)
    with 1 False have "length (show_nat (n div 10)) = 1" by simp
    then have "show_nat (n div 10) = [CHR ''0'']" using h
      by (cases "show_nat (n div 10)") auto
    then have "digits_val (show_nat (n div 10)) = 0" by (simp add: digits_val_def)
    then have "n div 10 = 0" by (simp add: digits_val_show_nat)
    with False show ?thesis by simp
  qed
qed

lemma read_nat_show_nat:
  assumes "rest = [] \<or> \<not> is_digit (hd rest)"
  shows "read_nat (show_nat n @ rest) = Some (n, rest)"
proof -
  have dr: "dropWhile is_digit rest = rest" "takeWhile is_digit rest = []"
    using assms by (cases rest; auto)+
  have tw: "takeWhile is_digit (show_nat n @ rest) = show_nat n"
    using show_nat_digits[of n] dr by (simp add: takeWhile_append2)
  have dw: "dropWhile is_digit (show_nat n @ rest) = rest"
    using show_nat_digits[of n] dr by (simp add: dropWhile_append2)
  show ?thesis
    unfolding read_nat_def Let_def tw dw
    using show_nat_hd_zero[of n] by (auto simp: show_nat_ne digits_val_show_nat)
qed

lemma show_nat_hd_not_minus: "hd (show_nat n) \<noteq> CHR ''-'' \<and> hd (show_nat n) \<noteq> DQ"
proof -
  have "is_digit (hd (show_nat n))" using show_nat_digits[of n] show_nat_ne[of n]
    by (cases "show_nat n") auto
  then show ?thesis by (auto simp: is_digit_def)
qed

lemma read_value_show_int:
  assumes "rest = [] \<or> \<not> is_digit (hd rest)"
  shows "read_value (show_int i @ rest) = Some (JInt i, rest)"
proof (cases "i < 0")
  case True
  then show ?thesis
    by (simp add: read_value_def show_int_def read_nat_show_nat[OF assms])
next
  case False
  obtain d ds where sn: "show_nat (nat i) = d # ds"
    using show_nat_ne[of "nat i"] by (cases "show_nat (nat i)") auto
  have "d \<noteq> CHR ''-''" "d \<noteq> DQ" using show_nat_hd_not_minus[of "nat i"] sn by auto
  moreover have "read_nat (d # ds @ rest) = Some (nat i, rest)"
    using read_nat_show_nat[OF assms, of "nat i"] sn by simp
  ultimately show ?thesis using False
    by (simp add: read_value_def show_int_def sn)
qed

lemma read_value_json_string:
  "read_value (json_string s @ rest) = Some (JStr s, rest)"
  by (simp add: read_value_def json_string_def read_string_body_escape)

lemma skip_ws_nonws: "\<not> json_ws c \<Longrightarrow> skip_ws (c # r) = c # r"
  by (simp add: skip_ws_def)

lemma read_pair_int:
  assumes "rest = [] \<or> \<not> is_digit (hd rest)"
  shows "read_pair (json_string k @ CHR '':'' # show_int i @ rest) = Some ((k, JInt i), rest)"
proof -
  obtain d ds where sn: "show_int i = d # ds" "\<not> json_ws d"
  proof (cases "i < 0")
    case True then show ?thesis using that by (simp add: show_int_def json_ws_def)
  next
    case False
    obtain d ds where "show_nat (nat i) = d # ds"
      using show_nat_ne[of "nat i"] by (cases "show_nat (nat i)") auto
    moreover from this have "is_digit d" using show_nat_digits[of "nat i"] by simp
    then have "\<not> json_ws d" by (auto simp: is_digit_def json_ws_def)
    ultimately show ?thesis using that False by (simp add: show_int_def)
  qed
  have rv: "read_value (d # ds @ rest) = Some (JInt i, rest)"
    using read_value_show_int[OF assms, of i] sn by simp
  show ?thesis
    by (simp add: read_pair_def json_string_def read_string_body_escape skip_ws_def
        json_ws_def sn rv[simplified] del: read_string_body.simps)
      (use sn rv in \<open>simp add: json_ws_def\<close>)
qed

lemma read_pair_str:
  "read_pair (json_string k @ CHR '':'' # json_string v @ rest) = Some ((k, JStr v), rest)"
proof -
  have rv: "read_value (DQ # concat (map json_escape_char v) @ DQ # rest) = Some (JStr v, rest)"
    using read_value_json_string[of v rest] by (simp add: json_string_def)
  show ?thesis
    by (simp add: read_pair_def json_string_def read_string_body_escape skip_ws_def
        json_ws_def rv del: read_string_body.simps)
qed

lemma json_string_timestamp: \<open>''"timestamp"'' = json_string ''timestamp''\<close>
  by (simp add: json_string_def json_escape_char_def)

lemma json_string_source: \<open>''"source"'' = json_string ''source''\<close>
  by (simp add: json_string_def json_escape_char_def)

lemma json_string_size:
  \<open>''"size_before_optimization"'' = json_string ''size_before_optimization''\<close>
  by (simp add: json_string_def json_escape_char_def)

lemma dumps_shape:
  \<open>json_dumps_metadata t s z =
     CHR ''{'' # json_string ''timestamp'' @ CHR '':'' # show_int t @
     CHR '','' # json_string ''source'' @ CHR '':'' # json_string s @
     CHR '','' # json_string ''size_before_optimization'' @ CHR '':'' # show_int z @ ''}''\<close>
  by (simp add: json_dumps_metadata_def json_string_def json_escape_char_def)

lemma read_members_comma:
  assumes "read_pair s = Some (kv, CHR '','' # r)" and "\<exists>r'. r = DQ # r'"
  shows "read_members (Suc k) s = map_option (apfst ((#) kv)) (read_members k r)"
  using assms by (auto simp: skip_ws_def json_ws_def)

lemma read_members_close:
  assumes "read_pair s = Some (kv, CHR ''}'' # r)"
  shows "read_members (Suc k) s = Some ([kv], r)"
  using assms by (auto simp: skip_ws_def json_ws_def)

lemma read_members_metadata:
  \<open>read_members (Suc (Suc (Suc k)))
     (json_string ''timestamp'' @ CHR '':'' # show_int t @
      CHR '','' # json_string ''source'' @ CHR '':'' # json_string s @
      CHR '','' # json_string ''size_before_optimization'' @ CHR '':'' # show_int z @
      CHR ''}'' # rest)
   = Some ([(''timestamp'', JInt t), (''source'', JStr s),
            (''size_before_optimization'', JInt z)], rest)\<close>
proof -
  define R2 where
    "R2 = json_string ''size_before_optimization'' @ CHR '':'' # show_int z @ CHR ''}'' # rest"
  define R1 where "R1 = json_string ''source'' @ CHR '':'' # json_string s @ CHR '','' # R2"
  have h2: "\<exists>r. R2 = DQ # r" by (simp add: R2_def json_string_def)
  have h1: "\<exists>r. R1 = DQ # r" by (simp add: R1_def json_string_def)
  have p0: "read_pair (json_string ''timestamp'' @ CHR '':'' # show_int t @ CHR '','' # R1)
      = Some ((''timestamp'', JInt t), CHR '','' # R1)"
    by (rule read_pair_int) (simp add: is_digit_def)
  have p1: "read_pair R1 = Some ((''source'', JStr s), CHR '','' # R2)"
    unfolding R1_def by (rule read_pair_str)
  have p2: "read_pair R2 = Some ((''size_before_optimization'', JInt z), CHR ''}'' # rest)"
    unfolding R2_def by (rule read_pair_int) (simp add: is_digit_def)
  have m2: "read_members (Suc k) R2 = Some ([(''size_before_optimization'', JInt z)], rest)"
    by (rule read_members_close[OF p2])
  have m1: "read_members (Suc (Suc k)) R1
      = Some ([(''source'', JStr s), (''size_before_optimization'', JInt z)], rest)"
    by (simp only: read_members_comma[OF p1 h2] m2) simp
  have "read_members (Suc (Suc (Suc k)))
      (json_string ''timestamp'' @ CHR '':'' # show_int t @ CHR '','' # R1)
      = Some ([(''timestamp'', JInt t), (''source'', JStr s),
               (''size_before_optimization'', JInt z)], rest)"
    by (simp only: read_members_comma[OF p0 h1] m1) simp
  then show ?thesis by (simp only: R1_def R2_def)
qed

lemma json_loads_object_members:
  assumes "read_members (length (CHR ''{'' # DQ # body)) (DQ # body) = Some (kvs, rest)"
    and "skip_ws rest = []"
  shows "json_loads_object (CHR ''{'' # DQ # body) = Some kvs"
  using assms unfolding json_loads_object_def
  by (simp add: skip_ws_def json_ws_def del: read_members.simps)

lemma parse_metadata_roundtrip: "parse_metadata (metadata_line t s z) = Some (t, s, z)"
proof -
  define body where
    "body = tl (json_string ''timestamp'') @ CHR '':'' # show_int t @
      CHR '','' # json_string ''source'' @ CHR '':'' # json_string s @
      CHR '','' # json_string ''size_before_optimization'' @ CHR '':'' # show_int z @
      CHR ''}'' # [LF]"
  have ml: "metadata_line t s z = CHR ''{'' # DQ # body"
    by (simp add: metadata_line_def dumps_shape body_def) (simp add: json_string_def)
  have db: "DQ # body = json_string ''timestamp'' @ CHR '':'' # show_int t @
      CHR '','' # json_string ''source'' @ CHR '':'' # json_string s @
      CHR '','' # json_string ''size_before_optimization'' @ CHR '':'' # show_int z @
      CHR ''}'' # [LF]"
    by (simp add: body_def) (simp add: json_string_def)
  have "body \<noteq> []" by (simp add: body_def)
  then obtain k where "length body = Suc k" by (cases body) auto
  then have k: "length (CHR ''{'' # DQ # body) = Suc (Suc (Suc k))" by simp
  have rm: "read_members (length (CHR ''{'' # DQ # body)) (DQ # body) =
      Some ([(''timestamp'', JInt t), (''source'', JStr s),
             (''size_before_optimization'', JInt z)], [LF])"
  proof -
    have "read_members (Suc (Suc (Suc k))) (DQ # body) =
      Some ([(''timestamp'', JInt t), (''source'', JStr s),
             (''size_before_optimization'', JInt z)], [LF])"
      unfolding db by (rule read_members_metadata)
    then show ?thesis by (simp only: k)
  qed
  have "json_loads_object (metadata_line t s z) =
      Some [(''timestamp'', JInt t), (''source'', JStr s), (''size_before_optimization'', JInt z)]"
    unfolding ml by (rule json_loads_object_members[OF rm]) (simp add: skip_ws_def json_ws_def)
  then show ?thesis by (simp add: parse_metadata_def)
qed

lemma of_char_hex_digit: "d < 16 \<Longrightarrow> 48 \<le> (of_char (hex_digit d) :: nat)"
  by (auto simp: hex_digit_def)

lemma hex_digit_no_newline: "d < 16 \<Longrightarrow> hex_digit d \<noteq> LF \<and> hex_digit d \<noteq> CR"
  using of_char_hex_digit[of d] by auto

lemma json_escape_no_newline: "LF \<notin> set (json_escape_char c) \<and> CR \<notin> set (json_escape_char c)"
proof -
  have "(of_char c :: nat) div 16 < 16" using of_char_lt_256[of c] by arith
  moreover have "(of_char c :: nat) mod 16 < 16" by simp
  ultimately show ?thesis
    using hex_digit_no_newline[of "of_char c div 16"] hex_digit_no_newline[of "of_char c mod 16"]
    by (auto simp: json_escape_char_def Let_def)
qed

lemma json_string_no_newline: "LF \<notin> set (json_string s) \<and> CR \<notin> set (json_string s)"
  using json_escape_no_newline by (auto simp: json_string_def)

lemma show_nat_no_newline: "LF \<notin> set (show_nat n) \<and> CR \<notin> set (show_nat n)"
  using show_nat_digits[of n] by (auto simp: is_digit_def)

lemma show_int_no_newline: "LF \<notin> set (show_int i) \<and> CR \<notin> set (show_int i)"
  using show_nat_no_newline by (auto simp: show_int_def)

lemma json_dumps_no_newline:
  "LF \<notin> set (json_dumps_metadata t s z) \<and> CR \<notin> set (json_dumps_metadata t s z)"
  using json_string_no_newline[of s] show_int_no_newline[of t] show_int_no_newline[of z]
  by (simp add: json_dumps_metadata_def)

lemma json_dumps_is_json_line: "is_json_line (json_dumps_metadata t s z)"
  by (simp add: is_json_line_def json_dumps_metadata_def py_strip_def py_isspace_def
      startswith_brace_def)




section \<open>Properties of one snapshot cycle\<close>

subsection \<open>Paths\<close>

lemma rfind_Some:
  "rfind c s = Some i \<Longrightarrow> i < length s \<and> s ! i = c \<and> c \<notin> set (drop (Suc i) s)"
proof (induction s arbitrary: i)
  case Nil then show ?case by simp
next
  case (Cons x xs)
  show ?case
  proof (cases "rfind c xs")
    case None
    have "c \<notin> set xs" using None
    proof (induction xs)
      case Nil then show ?case by simp
    next
      case (Cons y ys) then show ?case by (auto split: option.splits if_splits)
    qed
    with Cons.prems None show ?thesis by (auto split: if_splits)
  next
    case (Some j)
    with Cons show ?thesis by auto
  qed
qed

lemma name_with_suffix_stem: "name_with_suffix name sfx = py_stem name @ sfx"
  by (simp add: name_with_suffix_def py_stem_def Let_def)

lemma stem_suffix: "py_stem name @ py_suffix name = name"
proof (cases "py_suffix name = []")
  case True then show ?thesis by (simp add: py_stem_def)
next
  case False
  then obtain i where i: "rfind (CHR ''.'') name = Some i" "py_suffix name = drop i name"
    by (auto simp: py_suffix_def split: option.splits if_splits)
  then have "i < length name" using rfind_Some by blast
  then show ?thesis using False i by (simp add: py_stem_def)
qed

lemma py_suffix_one_dot:
  assumes "py_suffix name \<noteq> []"
  shows "CHR ''.'' \<notin> set (tl (py_suffix name))"
proof -
  from assms obtain i where i: "rfind (CHR ''.'') name = Some i" "py_suffix name = drop i name"
    by (auto simp: py_suffix_def split: option.splits if_splits)
  then have "CHR ''.'' \<notin> set (drop (Suc i) name)" using rfind_Some by blast
  then show ?thesis using i by (simp add: drop_Suc tl_drop)
qed

lemma name_with_suffix_sql_gz_neq: "name_with_suffix name ''.sql.gz'' \<noteq> name"
proof
  assume eq: "name_with_suffix name ''.sql.gz'' = name"
  then have "py_stem name @ ''.sql.gz'' = py_stem name @ py_suffix name"
    by (simp add: name_with_suffix_stem stem_suffix)
  then have s: "py_suffix name = ''.sql.gz''" by simp
  then have "py_suffix name \<noteq> []" by simp
  from py_suffix_one_dot[OF this] s show False by simp
qed

lemma name_with_suffix_distinct:
  "name_with_suffix name ''.vacuuming'' \<noteq> name_with_suffix name ''.sql.gz''"
  by (simp add: name_with_suffix_stem)

lemma with_suffix_InrD:
  "with_suffix p sfx = Inr q \<Longrightarrow>
     p \<noteq> [] \<and> last p \<noteq> [] \<and> q = butlast p @ [name_with_suffix (last p) sfx]"
  by (auto simp: with_suffix_def split: if_splits)

lemma with_suffix_Inr_iff:
  "p \<noteq> [] \<Longrightarrow> last p \<noteq> [] \<Longrightarrow>
     with_suffix p sfx = Inr (butlast p @ [name_with_suffix (last p) sfx])"
  by (simp add: with_suffix_def)

lemma dump_path_neq_db:
  assumes "with_suffix p ''.sql.gz'' = Inr d" shows "d \<noteq> p"
proof
  assume "d = p"
  with with_suffix_InrD[OF assms] have "last p = name_with_suffix (last p) ''.sql.gz''"
    by (metis last_snoc)
  then show False using name_with_suffix_sql_gz_neq[of "last p"] by simp
qed

lemma dump_path_neq_temp:
  assumes "with_suffix p ''.sql.gz'' = Inr d" and "with_suffix p ''.vacuuming'' = Inr t"
  shows "d \<noteq> t" and "d \<noteq> c @ [last t]"
proof -
  have ld: "last d = name_with_suffix (last p) ''.sql.gz''"
    using with_suffix_InrD[OF assms(1)] by simp
  have lt: "last t = name_with_suffix (last p) ''.vacuuming''"
    using with_suffix_InrD[OF assms(2)] by simp
  show "d \<noteq> t" using ld lt name_with_suffix_distinct[of "last p"] by auto
  show "d \<noteq> c @ [last t]" using ld lt name_with_suffix_distinct[of "last p"] by auto
qed

lemma name_with_suffix_quote:
  assumes "CHR 0x27 \<notin> set name"
  shows "CHR 0x27 \<notin> set (name_with_suffix name ''.vacuuming'')"
proof -
  have "set (py_stem name) \<subseteq> set name"
    by (auto simp: py_stem_def dest: in_set_takeD)
  then show ?thesis using assms by (auto simp: name_with_suffix_stem)
qed




subsection \<open>What each step touches\<close>

lemma write_file_simps [simp]:
  "files (write_file p f w) = (files w)(p \<mapsto> f)"
  "log (write_file p f w) = log w"
  "calls (write_file p f w) = calls w"
  by (simp_all add: write_file_def)

lemma say_simps [simp]:
  "files (say m w) = files w"
  "log (say m w) = log w @ [m]"
  "calls (say m w) = calls w"
  by (simp_all add: say_def)

lemma read_file_simps:
  "files w p = Some f \<Longrightarrow> read_file w p = f"
  "files w p = None \<Longrightarrow> read_file w p = []"
  by (simp_all add: read_file_def)

lemma pragma_step_frame:
  "q \<noteq> db_path \<Longrightarrow> files (pragma_step E db_path w) q = files w q"
  "log (pragma_step E db_path w) = log w"
  "calls (pragma_step E db_path w) = calls w"
  "files (pragma_step E db_path w) db_path \<noteq> None"
  by (simp_all add: pragma_step_def split: prod.splits)

lemma vacuum_into_step_frame:
  assumes "vacuum_into_step E db_path nm w = (w', r)"
  shows "into_target E nm \<noteq> Some q \<Longrightarrow> files w' q = files w q"
    and "log w' = log w" and "calls w' = calls w"
  using assms
  by (auto simp: vacuum_into_step_def split: option.splits if_splits into_result.splits)

lemma replace_step_frame:
  assumes "replace_step E src dst w = (w', r)"
  shows "q \<noteq> src \<Longrightarrow> q \<noteq> dst \<Longrightarrow> files w' q = files w q"
    and "log w' = log w" and "calls w' = calls w"
    and "files w dst \<noteq> None \<Longrightarrow> files w' dst \<noteq> None"
  using assms
  by (auto simp: replace_step_def split: option.splits if_splits)

lemma atomic_compaction_frame:
  assumes "atomic_compaction E db_path w = (w', r, c)"
    and "q \<noteq> db_path"
    and "\<And>t. with_suffix db_path ''.vacuuming'' = Inr t \<Longrightarrow> q \<noteq> t \<and> into_target E (last t) \<noteq> Some q"
  shows "files w' q = files w q"
proof (cases "with_suffix db_path ''.vacuuming''")
  case (Inl e)
  with assms(1) show ?thesis by (simp add: atomic_compaction_def)
next
  case (Inr t)
  obtain w1 r1 where v: "vacuum_into_step E db_path (last t) w = (w1, r1)"
    by (cases "vacuum_into_step E db_path (last t) w")
  have f1: "files w1 q = files w q"
    using vacuum_into_step_frame(1)[OF v] assms(3)[OF Inr] by simp
  show ?thesis
  proof (cases r1)
    case True
    with assms(1) Inr v f1 show ?thesis by (simp add: atomic_compaction_def)
  next
    case False
    obtain w2 r2 where rp: "replace_step E t db_path w1 = (w2, r2)"
      by (cases "replace_step E t db_path w1")
    have f2: "files w2 q = files w1 q"
      using replace_step_frame(1)[OF rp] assms(2) assms(3)[OF Inr] by simp
    from assms(1) Inr v False rp have "w' = w2"
      by (auto simp: atomic_compaction_def split: option.splits if_splits)
    with f1 f2 show ?thesis by simp
  qed
qed

lemma atomic_compaction_log:
  assumes "atomic_compaction E db_path w = (w', r, c)"
  shows "log w' = log w" and "calls w' = calls w"
proof -
  have "log w' = log w \<and> calls w' = calls w"
  proof (cases "with_suffix db_path ''.vacuuming''")
    case (Inl e)
    with assms(1) show ?thesis by (simp add: atomic_compaction_def)
  next
    case (Inr t)
    obtain w1 r1 where v: "vacuum_into_step E db_path (last t) w = (w1, r1)"
      by (cases "vacuum_into_step E db_path (last t) w")
    obtain w2 r2 where rp: "replace_step E t db_path w1 = (w2, r2)"
      by (cases "replace_step E t db_path w1")
    from assms(1) Inr v rp have "w' = w1 \<or> w' = w2"
      by (auto simp: atomic_compaction_def split: option.splits if_splits bool.splits)
    then show ?thesis
      using vacuum_into_step_frame(2,3)[OF v] replace_step_frame(2,3)[OF rp] by auto
  qed
  then show "log w' = log w" and "calls w' = calls w" by simp_all
qed

lemma fallback_vacuum_frame:
  "q \<noteq> db_path \<Longrightarrow> files (fallback_vacuum E db_path c w) q = files w q"
  "log (fallback_vacuum E db_path c w) = log w"
  "calls (fallback_vacuum E db_path c w) = calls w"
  by (simp_all add: fallback_vacuum_def split: prod.splits)

lemma compact_frame:
  assumes "compact E db_path w = (w', r)"
    and "q \<noteq> db_path"
    and "\<And>t. with_suffix db_path ''.vacuuming'' = Inr t \<Longrightarrow> q \<noteq> t \<and> into_target E (last t) \<noteq> Some q"
  shows "files w' q = files w q"
proof -
  let ?w1 = "pragma_step E db_path w"
  obtain w2 ra c where a: "atomic_compaction E db_path ?w1 = (w2, ra, c)"
    by (cases "atomic_compaction E db_path ?w1") auto
  have f2: "files w2 q = files w q"
    using atomic_compaction_frame[OF a assms(2,3)] pragma_step_frame(1)[OF assms(2)] by simp
  from assms(1) a have "w' = w \<or> w' = ?w1 \<or> w' = w2 \<or> w' = fallback_vacuum E db_path c w2"
    by (auto simp: compact_def Let_def split: if_splits)
  then show ?thesis
    using f2 pragma_step_frame(1)[OF assms(2)] fallback_vacuum_frame(1)[OF assms(2)] by auto
qed

lemma compact_log:
  assumes "compact E db_path w = (w', r)"
  shows "log w' = log w" and "calls w' = calls w"
proof -
  let ?w1 = "pragma_step E db_path w"
  obtain w2 ra c where a: "atomic_compaction E db_path ?w1 = (w2, ra, c)"
    by (cases "atomic_compaction E db_path ?w1") auto
  from assms(1) a have "w' = w \<or> w' = ?w1 \<or> w' = w2 \<or> w' = fallback_vacuum E db_path c w2"
    by (auto simp: compact_def Let_def split: if_splits)
  then have "log w' = log w \<and> calls w' = calls w"
    using atomic_compaction_log[OF a] pragma_step_frame(2,3) fallback_vacuum_frame(2,3) by auto
  then show "log w' = log w" and "calls w' = calls w" by simp_all
qed

lemma compact_result:
  "snd (compact E db_path w) =
     (if connect_fails E db_path \<or> commit_fails E db_path then Some SqliteError else None)"
  by (simp add: compact_def Let_def split: prod.splits)

text \<open>The archive path is none of the paths the compaction writes.\<close>

lemma compact_keeps_archive:
  assumes "compact E db_path w = (w', r)"
    and "with_suffix db_path ''.sql.gz'' = Inr dump_path"
    and "CHR 0x27 \<notin> set (last db_path)"
  shows "files w' dump_path = files w dump_path"
proof (rule compact_frame[OF assms(1)])
  show "dump_path \<noteq> db_path" using dump_path_neq_db[OF assms(2)] .
next
  fix t assume t: "with_suffix db_path ''.vacuuming'' = Inr t"
  have "last t = name_with_suffix (last db_path) ''.vacuuming''"
    using with_suffix_InrD[OF t] by simp
  then have "CHR 0x27 \<notin> set (last t)" using name_with_suffix_quote[OF assms(3)] by simp
  then have "into_target E (last t) = Some (cwd E @ [last t])" by (simp add: into_target_def)
  then show "dump_path \<noteq> t \<and> into_target E (last t) \<noteq> Some dump_path"
    using dump_path_neq_temp[OF assms(2) t] by auto
qed

subsection \<open>The append\<close>

lemma gz_write_ok:
  assumes "gz_write r p d w = (w', None)"
  shows "w' = append_segs p [Member d] w"
  using assms by (auto simp: gz_write_def split: gz_outcome.splits option.splits)

lemma gz_write_type_error:
  assumes "gz_write r p d w = (w', Some TypeError)"
  shows "w' = w"
  using assms by (auto simp: gz_write_def split: gz_outcome.splits option.splits)

lemma gzip_append_ok:
  assumes "gzip_append E p d w = (w', None)"
  shows "w' = append_segs p [Member d] w"
proof -
  obtain w1 r1 where g: "gz_write (gzip_mtime E p) p d w = (w1, r1)"
    by (cases "gz_write (gzip_mtime E p) p d w")
  show ?thesis
  proof (cases r1)
    case None
    with assms g show ?thesis using gz_write_ok[of "gzip_mtime E p" p d w w1]
      by (simp add: gzip_append_def)
  next
    case (Some e)
    with assms g have e: "e = TypeError" and g2: "gz_write (gzip_plain E p) p d w1 = (w', None)"
      by (auto simp: gzip_append_def split: if_splits)
    from g Some e have "w1 = w" using gz_write_type_error by blast
    with g2 show ?thesis using gz_write_ok by blast
  qed
qed

lemma append_segs_simps [simp]:
  "files (append_segs p s w) = (files w)(p \<mapsto> read_file w p @ s)"
  "log (append_segs p s w) = log w"
  "calls (append_segs p s w) = calls w"
  by (simp_all add: append_segs_def)

lemma gz_write_frame:
  assumes "gz_write r p d w = (w', x)"
  shows "q \<noteq> p \<Longrightarrow> files w' q = files w q" and "log w' = log w" and "calls w' = calls w"
    and "prefix (read_file w p) (read_file w' p)"
  using assms
  by (auto simp: gz_write_def read_file_def split: gz_outcome.splits option.splits)

lemma gzip_append_frame:
  assumes "gzip_append E p d w = (w', x)"
  shows "q \<noteq> p \<Longrightarrow> files w' q = files w q" and "log w' = log w" and "calls w' = calls w"
    and "prefix (read_file w p) (read_file w' p)"
proof -
  obtain w1 r1 where g: "gz_write (gzip_mtime E p) p d w = (w1, r1)"
    by (cases "gz_write (gzip_mtime E p) p d w")
  obtain w2 r2 where g2: "gz_write (gzip_plain E p) p d w1 = (w2, r2)"
    by (cases "gz_write (gzip_plain E p) p d w1")
  from assms g g2 have c: "w' = w1 \<or> (r1 = Some TypeError \<and> w' = w2)"
    by (auto simp: gzip_append_def split: option.splits if_splits)
  have w1: "r1 = Some TypeError \<Longrightarrow> w1 = w" using g gz_write_type_error by blast
  show "q \<noteq> p \<Longrightarrow> files w' q = files w q"
    using c gz_write_frame(1)[OF g] gz_write_frame(1)[OF g2] w1 by auto
  show "log w' = log w" using c gz_write_frame(2)[OF g] gz_write_frame(2)[OF g2] by auto
  show "calls w' = calls w" using c gz_write_frame(3)[OF g] gz_write_frame(3)[OF g2] by auto
  show "prefix (read_file w p) (read_file w' p)"
    using c gz_write_frame(4)[OF g] gz_write_frame(4)[OF g2] w1 by auto
qed




subsection \<open>The body of the cycle\<close>

lemma snapshot_body_success:
  assumes "snapshot_body E db_path dump_path w = (w', None)"
  shows "\<exists>w1 f dump_bytes.
      compact E db_path w = (w1, None) \<and>
      files w1 db_path = Some f \<and>
      sqlite3_dump E db_path f = Dump_ok dump_bytes \<and>
      files w' = (files w1)(dump_path \<mapsto> read_file w1 dump_path @
         [Member (combined_bytes (metadata_line (clock E db_path) (str_path db_path)
                     (int (st_size E f))) dump_bytes)]) \<and>
      calls w' = calls w1 @ [Dump_call db_path]"
proof -
  obtain w1 r1 where c: "compact E db_path w = (w1, r1)" by (cases "compact E db_path w")
  with assms have r1: "r1 = None" by (auto simp: snapshot_body_def split: option.splits)
  let ?w2 = "w1\<lparr>calls := calls w1 @ [Dump_call db_path]\<rparr>"
  have rf: "read_file ?w2 = read_file w1" by (auto simp: read_file_def fun_eq_iff)
  from assms c r1 obtain dump_bytes where
    d: "sqlite3_dump E db_path (read_file w1 db_path) = Dump_ok dump_bytes"
    by (cases "sqlite3_dump E db_path (read_file w1 db_path)")
       (auto simp: snapshot_body_def Let_def rf)
  from assms c r1 d obtain f where f: "files w1 db_path = Some f"
    by (cases "files w1 db_path") (auto simp: snapshot_body_def Let_def rf)
  let ?rec = "combined_bytes (metadata_line (clock E db_path) (str_path db_path)
                     (int (st_size E f))) dump_bytes"
  obtain w3 r3 where g: "gzip_append E dump_path ?rec ?w2 = (w3, r3)"
    by (cases "gzip_append E dump_path ?rec ?w2")
  from assms c r1 d f g have r3: "r3 = None"
    by (auto simp: snapshot_body_def Let_def rf split: option.splits if_splits)
  from gzip_append_ok[OF g[unfolded r3]] have w3: "w3 = append_segs dump_path [Member ?rec] ?w2" .
  from assms c r1 d f g r3 have w': "files w' = files w3 \<and> calls w' = calls w3"
    by (auto simp: snapshot_body_def Let_def rf split: option.splits if_splits)
  have "read_file w1 db_path = f" using f by (simp add: read_file_def)
  with d have d': "sqlite3_dump E db_path f = Dump_ok dump_bytes" by simp
  show ?thesis
    using c r1 f d' w' w3 rf by (intro exI[of _ w1] exI[of _ f] exI[of _ dump_bytes]) simp
qed

lemma snapshot_body_files:
  assumes "snapshot_body E db_path dump_path w = (w', r)"
  shows "\<exists>w1 r1. compact E db_path w = (w1, r1) \<and>
     (files w' = files w1 \<or>
      (\<exists>rec w3 r3. gzip_append E dump_path rec (w1\<lparr>calls := calls w1 @ [Dump_call db_path]\<rparr>)
          = (w3, r3) \<and> files w' = files w3))"
proof -
  obtain w1 r1 where c: "compact E db_path w = (w1, r1)" by (cases "compact E db_path w")
  let ?w2 = "w1\<lparr>calls := calls w1 @ [Dump_call db_path]\<rparr>"
  have rf: "read_file ?w2 = read_file w1" by (auto simp: read_file_def fun_eq_iff)
  have "files w' = files w1 \<or>
      (\<exists>rec w3 r3. gzip_append E dump_path rec ?w2 = (w3, r3) \<and> files w' = files w3)"
  proof (cases r1)
    case (Some e)
    with assms c show ?thesis by (simp add: snapshot_body_def)
  next
    case None
    show ?thesis
    proof (cases "sqlite3_dump E db_path (read_file w1 db_path)")
      case (Dump_ok dump_bytes)
      show ?thesis
      proof (cases "files w1 db_path")
        case N: None
        with assms c None Dump_ok show ?thesis by (auto simp: snapshot_body_def Let_def rf)
      next
        case (Some f)
        let ?rec = "combined_bytes (metadata_line (clock E db_path) (str_path db_path)
                     (int (st_size E f))) dump_bytes"
        obtain w3 r3 where g: "gzip_append E dump_path ?rec ?w2 = (w3, r3)"
          by (cases "gzip_append E dump_path ?rec ?w2")
        from assms c None Dump_ok Some g have "files w' = files w3"
          by (auto simp: snapshot_body_def Let_def rf split: option.splits if_splits)
        with g show ?thesis by blast
      qed
    qed (use assms c None in \<open>auto simp: snapshot_body_def Let_def rf\<close>)
  qed
  with c show ?thesis by blast
qed

lemma snapshot_body_prefix:
  assumes "snapshot_body E db_path dump_path w = (w', r)"
    and "with_suffix db_path ''.sql.gz'' = Inr dump_path"
    and "CHR 0x27 \<notin> set (last db_path)"
  shows "prefix (read_file w dump_path) (read_file w' dump_path)"
proof -
  from snapshot_body_files[OF assms(1)] obtain w1 r1 where
    c: "compact E db_path w = (w1, r1)" and
    d: "files w' = files w1 \<or>
      (\<exists>rec w3 r3. gzip_append E dump_path rec (w1\<lparr>calls := calls w1 @ [Dump_call db_path]\<rparr>)
          = (w3, r3) \<and> files w' = files w3)" by blast
  let ?w2 = "w1\<lparr>calls := calls w1 @ [Dump_call db_path]\<rparr>"
  have rf: "read_file ?w2 = read_file w1" by (auto simp: read_file_def fun_eq_iff)
  have k: "read_file w1 dump_path = read_file w dump_path"
    using compact_keeps_archive[OF c assms(2,3)] by (simp add: read_file_def)
  from d show ?thesis
  proof
    assume "files w' = files w1"
    then have "read_file w' dump_path = read_file w1 dump_path" by (simp add: read_file_def)
    then show ?thesis using k by simp
  next
    assume "\<exists>rec w3 r3. gzip_append E dump_path rec ?w2 = (w3, r3) \<and> files w' = files w3"
    then obtain rec w3 r3 where g: "gzip_append E dump_path rec ?w2 = (w3, r3)"
      and e: "files w' = files w3" by blast
    from e have "read_file w' dump_path = read_file w3 dump_path" by (simp add: read_file_def)
    with gzip_append_frame(4)[OF g] show ?thesis using k rf by simp
  qed
qed

lemma gunzip_from_append_member:
  "gunzip_from a (f @ [Member r]) =
     (case gunzip_from a f of None \<Rightarrow> None | Some old \<Rightarrow> Some (old @ r))"
  by (induction a f rule: gunzip_from.induct) (auto split: option.splits)

lemma gunzip_append_member:
  "gunzip (f @ [Member r]) = (case gunzip f of None \<Rightarrow> None | Some old \<Rightarrow> Some (old @ r))"
  by (simp add: gunzip_def gunzip_from_append_member)

lemma combined_bytes_ne: "combined_bytes m d \<noteq> []"
  by (simp add: combined_bytes_def)




lemma optimize_and_dump_success:
  assumes "optimize_and_dump E db_path w = (w', Inr (Some d))"
  shows "exists_path w db_path \<and> with_suffix db_path ''.sql.gz'' = Inr d \<and>
         snapshot_body E db_path d w = (w', None)"
  using assms
  by (auto simp: optimize_and_dump_def path_exists_def exists_path_def
      split: if_splits sum.splits option.splits prod.splits)

lemma optimize_and_dump_prefix:
  assumes "optimize_and_dump E db_path w = (w', r)"
    and "with_suffix db_path ''.sql.gz'' = Inr dump_path"
    and "CHR 0x27 \<notin> set (last db_path)"
  shows "prefix (read_file w dump_path) (read_file w' dump_path)"
proof (cases "exists_path w db_path")
  case False
  with assms(1) have "w' = w"
    by (auto simp: optimize_and_dump_def path_exists_def exists_path_def split: if_splits)
  then show ?thesis by simp
next
  case True
  obtain w2 r2 where b: "snapshot_body E db_path dump_path w = (w2, r2)"
    by (cases "snapshot_body E db_path dump_path w")
  from assms(1,2) True b have "files w' = files w2"
    by (auto simp: optimize_and_dump_def path_exists_def exists_path_def
        split: option.splits if_splits)
  then have "read_file w' dump_path = read_file w2 dump_path" by (simp add: read_file_def)
  with snapshot_body_prefix[OF b assms(2,3)] show ?thesis by simp
qed

section \<open>Running the sample repository\<close>

lemma quiet_env_simps [simp]:
  "root quiet_env = [''repo'']" "cwd quiet_env = [''repo'']" "gz_len quiet_env = length"
  "stat_raises quiet_env p = False" "stdout_rejects quiet_env t = False"
  "connect_fails quiet_env p = False"
  "pragma_optimize quiet_env p f = (f, False)"
  "commit_fails quiet_env p = False"
  "sql_literal_target quiet_env n = None"
  "vacuum_into quiet_env p f = Into_done [Raw ''db'']"
  "replace_fails quiet_env src dst = False"
  "reconnect_fails quiet_env p = False"
  "vacuum quiet_env p f = (f, False)"
  "sqlite3_dump quiet_env p f = Dump_ok sample_dump"
  "clock quiet_env p = 1700000000"
  "gzip_mtime quiet_env p = Gz_ok"
  "gzip_plain quiet_env p = Gz_ok"
  "gz_read_fails quiet_env p = False"
  "locale_decode quiet_env b = None"
  "restore_connect_fails quiet_env p = False"
  "executescript quiet_env p fo script = (Some [Raw script], False)"
  "stdout_encodes_checkmark quiet_env = True"
  by (simp_all add: quiet_env_def)

lemma repo_world_simps [simp]:
  "files repo_world = [repo_db \<mapsto> [Raw ''d-b-'']]" "log repo_world = []" "calls repo_world = []"
  by (simp_all add: repo_world_def)

lemma repo_db_suffix [simp]:
  "with_suffix repo_db ''.sql.gz'' = Inr repo_archive"
  "with_suffix repo_db ''.vacuuming'' = Inr repo_temp"
  by (simp_all add: with_suffix_def repo_db_def repo_archive_def repo_temp_def
      name_with_suffix_def py_suffix_def)

lemma repo_paths [simp]:
  "repo_archive \<noteq> repo_db" "repo_db \<noteq> repo_archive"
  "repo_temp \<noteq> repo_db" "repo_db \<noteq> repo_temp"
  "repo_temp \<noteq> repo_archive" "repo_archive \<noteq> repo_temp"
  "[''repo'', last repo_temp] = repo_temp"
  "str_path repo_db = ''/repo/database.db''"
  "last repo_archive = ''database.sql.gz''"
  "CHR 0x27 \<notin> set (last repo_db)"
  by (simp_all add: repo_db_def repo_archive_def repo_temp_def str_path_def)

lemma digit_char_simps:
  "digit_char 0 = CHR ''0''" "digit_char 1 = CHR ''1''" "digit_char 2 = CHR ''2''"
  "digit_char 3 = CHR ''3''" "digit_char 4 = CHR ''4''" "digit_char 5 = CHR ''5''"
  "digit_char 6 = CHR ''6''" "digit_char 7 = CHR ''7''" "digit_char 8 = CHR ''8''"
  "digit_char 9 = CHR ''9''" "digit_char (Suc 0) = CHR ''1''"
  by code_simp+

lemma show_int_clock: "show_int 1700000000 = ''1700000000''"
  by (simp add: show_int_def show_nat.simps digit_char_simps)

lemma show_int_small: "show_int 2 = ''2''" "show_int 4 = ''4''"
  by (simp_all add: show_int_def show_nat.simps digit_char_simps)

lemmas step_defs = optimize_and_dump_def snapshot_body_def compact_def pragma_step_def
  atomic_compaction_def vacuum_into_step_def into_target_def replace_step_def
  fallback_vacuum_def gzip_append_def gz_write_def append_segs_def exists_path_def
  path_exists_def print_raises_def
  read_file_def write_file_def say_def st_size_def seg_len_def Let_def

section \<open>The claims about the reader, the framer and the writer\<close>



text \<open>An archive of complete members whose plaintext is ASCII without carriage
  returns is read back as the concatenation of the plaintexts.\<close>

lemma universal_newlines_id: "CR \<notin> set s \<Longrightarrow> universal_newlines s = s"
  by (induction s rule: universal_newlines.induct) auto

lemma gunzip_from_members: "gunzip_from a (map Member ps) = Some (concat ps)"
  by (induction ps arbitrary: a) simp_all

lemma gunzip_members: "gunzip (map Member ps) = Some (concat ps)"
  by (simp add: gunzip_def gunzip_from_members)

lemma read_text_members:
  assumes "\<not> gz_read_fails E gz_path"
    and "list_all (\<lambda>b. (of_char b :: nat) < 128) (concat ps)"
    and "CR \<notin> set (concat ps)"
  shows "read_text E gz_path (map Member ps) = Inr (concat ps)"
  using assms by (simp add: read_text_def gunzip_members decode_text_def universal_newlines_id)

lemma restore_latest_calls:
  assumes "files w gz_path = Some f" and "read_text E gz_path f = Inr content"
    and "\<not> restore_connect_fails E db_path"
  shows "calls (fst (restore_latest E gz_path db_path w)) =
           calls w @ [Script_call db_path (latest_sql content)]"
  using assms
  by (simp add: restore_latest_def path_exists_def read_file_def Let_def split: prod.splits)

lemma is_json_line_Nil: "\<not> is_json_line []"
  by (simp add: is_json_line_def py_strip_def startswith_brace_def)

lemma split_nl_two_LF: "split_nl (b @ [LF, LF]) = split_nl b @ [[], []]"
proof -
  have "split_nl (b @ LF # [LF]) = split_nl b @ split_nl [LF]" by (rule split_nl_append)
  then show ?thesis by (simp add: split_nl_Cons split_nl_Nil)
qed

lemma archive_text_ends:
  "archive_text recs = [] \<or> (\<exists>p. archive_text recs = p @ [LF])"
proof (cases recs rule: rev_cases)
  case Nil then show ?thesis by (simp add: archive_text_def)
next
  case (snoc rs r)
  obtain t s z body where r: "r = (t, s, z, body)" by (cases r) auto
  have "archive_text recs = (archive_text rs @ metadata_line t s z @ body @ [LF]) @ [LF]"
    by (simp add: snoc r archive_text_def combined_bytes_def)
  then show ?thesis by blast
qed

lemma latest_sql_archive_text:
  assumes "\<forall>l \<in> set (split_nl body). \<not> is_json_line l"
  shows "latest_sql (archive_text (rs @ [(t, s, z, body)])) = body @ [LF, LF]"
proof -
  have sh: "archive_text (rs @ [(t, s, z, body)]) =
      archive_text rs @ json_dumps_metadata t s z @ LF # (body @ [LF, LF])"
    by (simp add: archive_text_def combined_bytes_def metadata_line_def)
  have nl: "\<forall>l \<in> set (split_nl (body @ [LF, LF])). \<not> is_json_line l"
    using assms by (auto simp: split_nl_two_LF is_json_line_Nil)
  show ?thesis
    unfolding sh
    by (rule latest_sql_after_header[OF json_dumps_is_json_line _ nl archive_text_ends])
       (simp add: json_dumps_no_newline)
qed

text \<open>
  Claim C8 (framing round trip). For every timestamp, source string and size, the header
  the Framer emits is the JSON text followed by one line feed, the JSON text holds no
  line feed and no carriage return, and reading the line back with the JSON reader
  gives the three values that were supplied.
\<close>

theorem framing_round_trip:
  "metadata_line t s z = json_dumps_metadata t s z @ [LF] \<and>
   LF \<notin> set (json_dumps_metadata t s z) \<and> CR \<notin> set (json_dumps_metadata t s z) \<and>
   parse_metadata (metadata_line t s z) = Some (t, s, z)"
  using json_dumps_no_newline[of t s z] parse_metadata_roundtrip[of t s z]
  by (simp add: metadata_line_def)

text \<open>
  Claim C3 (legacy archives). When the text read from the archive has no line whose
  first non-whitespace character is an opening brace, the Archive Reader returns the
  whole text, and \<^verbatim>\<open>restore_latest\<close> hands exactly that text to \<^verbatim>\<open>executescript\<close>
  once the connection to the target is open.
\<close>

theorem legacy_archive_replayed_whole:
  assumes "files w gz_path = Some f" and "read_text E gz_path f = Inr content"
    and "\<forall>l \<in> set (split_nl content). \<not> is_json_line l"
    and "\<not> restore_connect_fails E db_path"
  shows "latest_sql content = content \<and>
         calls (fst (restore_latest E gz_path db_path w)) =
           calls w @ [Script_call db_path content]"
  using restore_latest_calls[OF assms(1,2,4)] latest_sql_legacy[OF assms(3)] by simp

lemma legacy_world_simps [simp]:
  "files legacy_world = [repo_archive \<mapsto> [Member (''BEGIN;'' @ [LF] @ ''COMMIT;'' @ [LF])]]"
  "log legacy_world = []" "calls legacy_world = []"
  by (simp_all add: legacy_world_def)

lemma legacy_read_text:
  "read_text quiet_env repo_archive [Member (''BEGIN;'' @ [LF] @ ''COMMIT;'' @ [LF])]
     = Inr (''BEGIN;'' @ [LF] @ ''COMMIT;'' @ [LF])"
  by (simp add: read_text_def gunzip_def decode_text_def)

lemma legacy_no_header:
  "\<forall>l \<in> set (split_nl (''BEGIN;'' @ [LF] @ ''COMMIT;'' @ [LF])). \<not> is_json_line l"
  by (simp add: split_nl_def is_json_line_def py_strip_def py_isspace_def startswith_brace_def)

text \<open>An archive of one member without a header, restored in the sample environment.\<close>

theorem legacy_archive_replayed_whole_witness:
  "files legacy_world repo_archive = Some [Member (''BEGIN;'' @ [LF] @ ''COMMIT;'' @ [LF])] \<and>
   read_text quiet_env repo_archive [Member (''BEGIN;'' @ [LF] @ ''COMMIT;'' @ [LF])]
     = Inr (''BEGIN;'' @ [LF] @ ''COMMIT;'' @ [LF]) \<and>
   list_all (\<lambda>l. \<not> is_json_line l) (split_nl (''BEGIN;'' @ [LF] @ ''COMMIT;'' @ [LF])) \<and>
   \<not> restore_connect_fails quiet_env repo_db \<and>
   latest_sql (''BEGIN;'' @ [LF] @ ''COMMIT;'' @ [LF]) = ''BEGIN;'' @ [LF] @ ''COMMIT;'' @ [LF] \<and>
   calls (fst (restore_latest quiet_env repo_archive repo_db legacy_world)) =
     [Script_call repo_db (''BEGIN;'' @ [LF] @ ''COMMIT;'' @ [LF])]"
proof -
  have h1: "files legacy_world repo_archive = Some [Member (''BEGIN;'' @ [LF] @ ''COMMIT;'' @ [LF])]"
    by simp
  have h4: "\<not> restore_connect_fails quiet_env repo_db" by simp
  have h3: "list_all (\<lambda>l. \<not> is_json_line l) (split_nl (''BEGIN;'' @ [LF] @ ''COMMIT;'' @ [LF]))"
    using legacy_no_header by (simp only: list_all_iff)
  from legacy_archive_replayed_whole[OF h1 legacy_read_text legacy_no_header h4]
  show ?thesis using h1 legacy_read_text h3 by simp
qed

text \<open>
  Claim C2 (latest wins), as stated: the Reader returns the last record's dump body
  byte for byte. It does not. For an archive of one record with the body
  \<^verbatim>\<open>COMMIT;\n\<close> the result differs from that body (it carries the record's two closing
  line feeds as well), and for a body with a line that starts with a brace the result
  is only what follows that line: here the two line feeds.
\<close>

theorem latest_dump_not_body_counterexample:
  "latest_sql (archive_text [(1700000000, ''/repo/database.db'', 4096, ''COMMIT;'' @ [LF])])
     \<noteq> ''COMMIT;'' @ [LF] \<and>
   latest_sql (archive_text [(1700000000, ''/repo/database.db'', 4096,
       ''INSERT INTO t VALUES('' @ [CHR 0x27, LF] @ ''{}'' @ [CHR 0x27] @ '');'' @ [LF])])
     = CHR 0x0A # [LF]"
proof -
  have a: "\<forall>l \<in> set (split_nl (''COMMIT;'' @ [LF])). \<not> is_json_line l"
    by (simp add: split_nl_def is_json_line_def py_strip_def py_isspace_def startswith_brace_def)
  have "latest_sql (archive_text ([] @ [(1700000000, ''/repo/database.db'', 4096, ''COMMIT;'' @ [LF])]))
     = (''COMMIT;'' @ [LF]) @ [LF, LF]"
    by (rule latest_sql_archive_text[OF a])
  then have one: "latest_sql (archive_text [(1700000000, ''/repo/database.db'', 4096, ''COMMIT;'' @ [LF])])
     \<noteq> ''COMMIT;'' @ [LF]" by simp
  have hdr: "is_json_line (''{}'' @ [CHR 0x27] @ '');'')"
    by (simp add: is_json_line_def py_strip_def py_isspace_def startswith_brace_def)
  have nl: "LF \<notin> set (''{}'' @ [CHR 0x27] @ '');'')" by simp
  have rest: "\<forall>l \<in> set (split_nl [LF, LF]). \<not> is_json_line l"
    by (simp add: split_nl_def is_json_line_Nil)
  have shape: "archive_text [(1700000000, ''/repo/database.db'', 4096,
       ''INSERT INTO t VALUES('' @ [CHR 0x27, LF] @ ''{}'' @ [CHR 0x27] @ '');'' @ [LF])]
     = (json_dumps_metadata 1700000000 ''/repo/database.db'' 4096 @ [LF]
          @ ''INSERT INTO t VALUES('' @ [CHR 0x27] @ [LF])
       @ (''{}'' @ [CHR 0x27] @ '');'') @ LF # [LF, LF]"
    by (simp add: archive_text_def combined_bytes_def metadata_line_def)
  have two: "latest_sql (archive_text [(1700000000, ''/repo/database.db'', 4096,
       ''INSERT INTO t VALUES('' @ [CHR 0x27, LF] @ ''{}'' @ [CHR 0x27] @ '');'' @ [LF])])
     = [LF, LF]"
    unfolding shape
    by (rule latest_sql_after_header[OF hdr nl rest]) simp
  from one two show ?thesis by simp
qed

text \<open>
  Claim C2, amended. For an archive text that is the concatenation of framed records, the
  last of them with a dump body in which no line has an opening brace as its first
  non-whitespace character, the Reader returns that body followed by the record's two
  closing line feeds, whatever the number of records before it, and \<^verbatim>\<open>restore_latest\<close>
  replays exactly that text: everything after the last header line.
\<close>

theorem latest_record_after_last_header:
  assumes "files w gz_path = Some f"
    and "read_text E gz_path f = Inr (archive_text (rs @ [(t, s, z, body)]))"
    and "\<forall>l \<in> set (split_nl body). \<not> is_json_line l"
    and "\<not> restore_connect_fails E db_path"
  shows "latest_sql (archive_text (rs @ [(t, s, z, body)])) = body @ [LF, LF] \<and>
         calls (fst (restore_latest E gz_path db_path w)) =
           calls w @ [Script_call db_path (body @ [LF, LF])]"
  using restore_latest_calls[OF assms(1,2,4)] latest_sql_archive_text[OF assms(3)] by simp



lemma sample_record_text:
  \<open>sample_record =
     ''{"timestamp":1700000000,"source":"/repo/database.db","size_before_optimization":2}''
       @ [LF] @ ''COMMIT;'' @ [LF, LF, LF]\<close>
  by (simp add: sample_record_def combined_bytes_def metadata_line_def json_dumps_metadata_def
      show_int_clock show_int_small json_string_def json_escape_char_def sample_dump_def)

lemma archived_world_simps [simp]:
  "files archived_world = [repo_db \<mapsto> [Raw ''d-b-''], repo_archive \<mapsto> [Member sample_record]]"
  "log archived_world = []" "calls archived_world = []"
  by (simp_all add: archived_world_def)

lemma sample_archive_text:
  "archive_text ([(1700000000, str_path repo_db, 2, sample_dump)] @
                 [(1700000000, str_path repo_db, 2, sample_dump)])
     = sample_record @ sample_record"
  by (simp add: archive_text_def sample_record_def)

lemma sample_read_text:
  "read_text quiet_env repo_archive [Member sample_record, Member sample_record]
     = Inr (sample_record @ sample_record)"
  by (simp add: read_text_def gunzip_def decode_text_def sample_record_text)

lemma sample_dump_no_header: "\<forall>l \<in> set (split_nl sample_dump). \<not> is_json_line l"
  by (simp add: sample_dump_def split_nl_def is_json_line_def py_strip_def py_isspace_def
      startswith_brace_def)

text \<open>An archive of two records of the sample run.\<close>

theorem latest_record_after_last_header_witness:
  "files (archived_world\<lparr>files := [repo_archive \<mapsto> [Member sample_record, Member sample_record]]\<rparr>)
     repo_archive = Some [Member sample_record, Member sample_record] \<and>
   read_text quiet_env repo_archive [Member sample_record, Member sample_record]
     = Inr (archive_text ([(1700000000, str_path repo_db, 2, sample_dump)] @
                          [(1700000000, str_path repo_db, 2, sample_dump)])) \<and>
   list_all (\<lambda>l. \<not> is_json_line l) (split_nl sample_dump) \<and>
   \<not> restore_connect_fails quiet_env repo_db \<and>
   latest_sql (sample_record @ sample_record) = sample_dump @ [LF, LF] \<and>
   calls (fst (restore_latest quiet_env repo_archive repo_db
      (archived_world\<lparr>files := [repo_archive \<mapsto> [Member sample_record, Member sample_record]]\<rparr>)))
     = [Script_call repo_db (sample_dump @ [LF, LF])]"
proof -
  let ?w = "archived_world\<lparr>files := [repo_archive \<mapsto> [Member sample_record, Member sample_record]]\<rparr>"
  have h1: "files ?w repo_archive = Some [Member sample_record, Member sample_record]" by simp
  have h2: "read_text quiet_env repo_archive [Member sample_record, Member sample_record]
     = Inr (archive_text ([(1700000000, str_path repo_db, 2, sample_dump)] @
                          [(1700000000, str_path repo_db, 2, sample_dump)]))"
    by (simp only: sample_read_text sample_archive_text)
  have h4: "\<not> restore_connect_fails quiet_env repo_db" by simp
  have c: "calls ?w = []" by simp
  from latest_record_after_last_header[OF h1 h2 sample_dump_no_header h4]
  have "latest_sql (sample_record @ sample_record) = sample_dump @ [LF, LF] \<and>
        calls (fst (restore_latest quiet_env repo_archive repo_db ?w))
          = [Script_call repo_db (sample_dump @ [LF, LF])]"
    by (simp only: sample_archive_text c append_Nil)
  moreover have "list_all (\<lambda>l. \<not> is_json_line l) (split_nl sample_dump)"
    using sample_dump_no_header by (simp only: list_all_iff)
  ultimately show ?thesis using h1 h2 h4 by blast
qed

lemma repo_temp_quote [simp]: "CHR 0x27 \<notin> set (last repo_temp)"
  by (simp add: repo_temp_def)

lemma sample_record_ne: "sample_record \<noteq> []"
  by (simp add: sample_record_def combined_bytes_def)

text \<open>What a successful cycle has done: the compaction ended without an exception, the
  dump subprocess returned the dump of the compacted file, and the archive got one
  member more: the header with the clock, the path and the size of that file, a line
  feed, the dump, two line feeds.\<close>

lemma cycle_success_appends:
  assumes "optimize_and_dump E db_path w = (w', Inr (Some d))"
  shows "\<exists>w1 f dump_bytes.
           compact E db_path w = (w1, None) \<and>
           files w1 db_path = Some f \<and>
           sqlite3_dump E db_path f = Dump_ok dump_bytes \<and>
           files w' d =
             Some (read_file w1 d @
                   [Member (json_dumps_metadata (clock E db_path) (str_path db_path)
                              (int (st_size E f)) @ [LF] @ dump_bytes @ [LF, LF])]) \<and>
           calls w' = calls w @ [Dump_call db_path]"
proof -
  from optimize_and_dump_success[OF assms]
  have b: "snapshot_body E db_path d w = (w', None)" by simp
  from snapshot_body_success[OF b] obtain w1 f dump_bytes where
    c: "compact E db_path w = (w1, None)" and f: "files w1 db_path = Some f" and
    d: "sqlite3_dump E db_path f = Dump_ok dump_bytes" and
    fw: "files w' = (files w1)(d \<mapsto> read_file w1 d @
         [Member (combined_bytes (metadata_line (clock E db_path) (str_path db_path)
                     (int (st_size E f))) dump_bytes)])" and
    cl: "calls w' = calls w1 @ [Dump_call db_path]" by blast
  have "files w' d =
      Some (read_file w1 d @
            [Member (json_dumps_metadata (clock E db_path) (str_path db_path)
                       (int (st_size E f)) @ [LF] @ dump_bytes @ [LF, LF])])"
    using fw by (simp add: combined_bytes_def metadata_line_def)
  moreover have "calls w' = calls w @ [Dump_call db_path]"
    using cl compact_log(2)[OF c] by simp
  ultimately show ?thesis using c f d by blast
qed

text \<open>When the file is there and every step of the cycle succeeds, the cycle returns the
  archive path and has appended that record.\<close>

lemma cycle_succeeds:
  assumes "exists_path w db_path" and "with_suffix db_path ''.sql.gz'' = Inr dump_path"
    and "compact E db_path w = (w1, None)" and "files w1 db_path = Some f"
    and "sqlite3_dump E db_path f = Dump_ok dump_bytes"
    and "gzip_mtime E dump_path = Gz_ok \<or>
         (gzip_mtime E dump_path = Gz_type_error \<and> gzip_plain E dump_path = Gz_ok)"
    and "\<not> print_raises E (last dump_path)"
  shows "snd (optimize_and_dump E db_path w) = Inr (Some dump_path)"
  using assms
  by (auto simp: optimize_and_dump_def path_exists_def exists_path_def snapshot_body_def
      Let_def read_file_def gzip_append_def gz_write_def append_segs_def write_file_def)


text \<open>
  Claim C4 (append only). For a database whose file name has no single quote, one run of
  \<^verbatim>\<open>optimize_and_dump\<close> leaves the archive's old content as a prefix of the new one,
  whatever the outcome. When the run succeeds, the compaction has ended without an
  exception, the dump subprocess has returned the dump body of the compacted file, and
  the archive is the old content (nothing, if there was no archive: it is created)
  followed by exactly one new gzip member: the header line, which reads back to the
  clock, the path and the size of that file, then a line feed, that dump body and two
  line feeds. When the old content decompresses (zero padding after a member
  included), the new content decompresses to the old plaintext, a strict prefix,
  followed by that record. And the run does succeed when the file is there, the
  compaction ends without an exception, the dump subprocess returns a dump, the append
  succeeds (at once, or without \<^verbatim>\<open>mtime\<close> after a \<^verbatim>\<open>TypeError\<close>) and the report can be
  printed.
\<close>

theorem append_only_archive:
  assumes "optimize_and_dump E db_path w = (w', r)"
    and "with_suffix db_path ''.sql.gz'' = Inr dump_path"
    and "CHR 0x27 \<notin> set (last db_path)"
  shows "prefix (read_file w dump_path) (read_file w' dump_path) \<and>
     (r = Inr (Some dump_path) \<longrightarrow>
        (\<exists>w1 f dump_bytes.
           compact E db_path w = (w1, None) \<and>
           files w1 db_path = Some f \<and>
           sqlite3_dump E db_path f = Dump_ok dump_bytes \<and>
           parse_metadata (json_dumps_metadata (clock E db_path) (str_path db_path)
                             (int (st_size E f)) @ [LF]) =
             Some (clock E db_path, str_path db_path, int (st_size E f)) \<and>
           files w' dump_path =
             Some (read_file w dump_path @
                   [Member (json_dumps_metadata (clock E db_path) (str_path db_path)
                              (int (st_size E f)) @ [LF] @ dump_bytes @ [LF, LF])]) \<and>
           (\<forall>old. gunzip (read_file w dump_path) = Some old \<longrightarrow>
              gunzip (read_file w' dump_path) =
                Some (old @ json_dumps_metadata (clock E db_path) (str_path db_path)
                              (int (st_size E f)) @ [LF] @ dump_bytes @ [LF, LF]) \<and>
              strict_prefix old
                (old @ json_dumps_metadata (clock E db_path) (str_path db_path)
                              (int (st_size E f)) @ [LF] @ dump_bytes @ [LF, LF])))) \<and>
     (\<forall>w1 f dump_bytes.
        exists_path w db_path \<and> compact E db_path w = (w1, None) \<and>
        files w1 db_path = Some f \<and> sqlite3_dump E db_path f = Dump_ok dump_bytes \<and>
        (gzip_mtime E dump_path = Gz_ok \<or>
         (gzip_mtime E dump_path = Gz_type_error \<and> gzip_plain E dump_path = Gz_ok)) \<and>
        \<not> print_raises E (last dump_path) \<longrightarrow>
        r = Inr (Some dump_path))"
proof (intro conjI impI allI)
  show "prefix (read_file w dump_path) (read_file w' dump_path)"
    by (rule optimize_and_dump_prefix[OF assms])
next
  fix w1 f dump_bytes
  assume a: "exists_path w db_path \<and> compact E db_path w = (w1, None) \<and>
        files w1 db_path = Some f \<and> sqlite3_dump E db_path f = Dump_ok dump_bytes \<and>
        (gzip_mtime E dump_path = Gz_ok \<or>
         (gzip_mtime E dump_path = Gz_type_error \<and> gzip_plain E dump_path = Gz_ok)) \<and>
        \<not> print_raises E (last dump_path)"
  then have "snd (optimize_and_dump E db_path w) = Inr (Some dump_path)"
    using cycle_succeeds[where w = w and E = E and ?w1.0 = w1 and f = f and
        dump_bytes = dump_bytes, OF _ assms(2)] by blast
  with assms(1) show "r = Inr (Some dump_path)" by simp
next
  assume r: "r = Inr (Some dump_path)"
  from cycle_success_appends[OF assms(1)[unfolded r]] obtain w1 f dump_bytes where
    c: "compact E db_path w = (w1, None)" and f: "files w1 db_path = Some f" and
    d: "sqlite3_dump E db_path f = Dump_ok dump_bytes" and
    fw: "files w' dump_path =
             Some (read_file w1 dump_path @
                   [Member (json_dumps_metadata (clock E db_path) (str_path db_path)
                              (int (st_size E f)) @ [LF] @ dump_bytes @ [LF, LF])])" by blast
  let ?rec = "json_dumps_metadata (clock E db_path) (str_path db_path)
                              (int (st_size E f)) @ [LF] @ dump_bytes @ [LF, LF]"
  have k: "read_file w1 dump_path = read_file w dump_path"
    using compact_keeps_archive[OF c assms(2,3)] by (simp add: read_file_def)
  have new: "files w' dump_path = Some (read_file w dump_path @ [Member ?rec])"
    using fw k by simp
  then have rd: "read_file w' dump_path = read_file w dump_path @ [Member ?rec]"
    by (simp add: read_file_def)
  have pm: "parse_metadata (json_dumps_metadata (clock E db_path) (str_path db_path)
                             (int (st_size E f)) @ [LF]) =
             Some (clock E db_path, str_path db_path, int (st_size E f))"
    using parse_metadata_roundtrip[of "clock E db_path" "str_path db_path" "int (st_size E f)"]
    by (simp add: metadata_line_def)
  have gz: "\<forall>old. gunzip (read_file w dump_path) = Some old \<longrightarrow>
      gunzip (read_file w' dump_path) = Some (old @ ?rec) \<and> strict_prefix old (old @ ?rec)"
    by (simp add: rd gunzip_append_member strict_prefix_def)
  from c f d pm new gz
  show "\<exists>w1 f dump_bytes.
           compact E db_path w = (w1, None) \<and>
           files w1 db_path = Some f \<and>
           sqlite3_dump E db_path f = Dump_ok dump_bytes \<and>
           parse_metadata (json_dumps_metadata (clock E db_path) (str_path db_path)
                             (int (st_size E f)) @ [LF]) =
             Some (clock E db_path, str_path db_path, int (st_size E f)) \<and>
           files w' dump_path =
             Some (read_file w dump_path @
                   [Member (json_dumps_metadata (clock E db_path) (str_path db_path)
                              (int (st_size E f)) @ [LF] @ dump_bytes @ [LF, LF])]) \<and>
           (\<forall>old. gunzip (read_file w dump_path) = Some old \<longrightarrow>
              gunzip (read_file w' dump_path) =
                Some (old @ json_dumps_metadata (clock E db_path) (str_path db_path)
                              (int (st_size E f)) @ [LF] @ dump_bytes @ [LF, LF]) \<and>
              strict_prefix old
                (old @ json_dumps_metadata (clock E db_path) (str_path db_path)
                              (int (st_size E f)) @ [LF] @ dump_bytes @ [LF, LF]))"
    by blast
qed

lemma padded_world_simps [simp]:
  "files padded_archive_world =
     [repo_db \<mapsto> [Raw ''d-b-''],
      repo_archive \<mapsto> [Member sample_record, Raw [CHR 0x00, CHR 0x00]]]"
  "log padded_archive_world = []" "calls padded_archive_world = []"
  by (simp_all add: padded_archive_world_def)

lemma padded_run_result:
  "snd (optimize_and_dump quiet_env repo_db padded_archive_world) = Inr (Some repo_archive)"
  by (simp add: step_defs)

lemma padded_run_archive:
  "files (fst (optimize_and_dump quiet_env repo_db padded_archive_world)) repo_archive =
     Some [Member sample_record, Raw [CHR 0x00, CHR 0x00], Member sample_record]"
  by (simp add: step_defs sample_record_def)

text \<open>The sample repository with one record and two bytes of zero padding in its
  archive: the cycle appends a second record, and the archive decompresses to both.\<close>

theorem append_only_archive_witness:
  "optimize_and_dump quiet_env repo_db padded_archive_world =
     (fst (optimize_and_dump quiet_env repo_db padded_archive_world), Inr (Some repo_archive)) \<and>
   with_suffix repo_db ''.sql.gz'' = Inr repo_archive \<and>
   CHR 0x27 \<notin> set (last repo_db) \<and>
   gunzip (read_file padded_archive_world repo_archive) = Some sample_record \<and>
   files (fst (optimize_and_dump quiet_env repo_db padded_archive_world)) repo_archive =
     Some [Member sample_record, Raw [CHR 0x00, CHR 0x00], Member sample_record] \<and>
   gunzip (read_file (fst (optimize_and_dump quiet_env repo_db padded_archive_world)) repo_archive) =
     Some (sample_record @ sample_record) \<and>
   strict_prefix sample_record (sample_record @ sample_record) \<and>
   prefix (read_file padded_archive_world repo_archive)
     (read_file (fst (optimize_and_dump quiet_env repo_db padded_archive_world)) repo_archive)"
proof -
  let ?w' = "fst (optimize_and_dump quiet_env repo_db padded_archive_world)"
  have h1: "optimize_and_dump quiet_env repo_db padded_archive_world = (?w', Inr (Some repo_archive))"
    using padded_run_result by (metis prod.collapse)
  have h2: "with_suffix repo_db ''.sql.gz'' = Inr repo_archive" by simp
  have h3: "CHR 0x27 \<notin> set (last repo_db)" by simp
  have g: "gunzip (read_file padded_archive_world repo_archive) = Some sample_record"
    by (simp add: read_file_def gunzip_def)
  from append_only_archive[OF h1 h2 h3]
  have p: "prefix (read_file padded_archive_world repo_archive) (read_file ?w' repo_archive)"
    by blast
  have "gunzip (read_file ?w' repo_archive) = Some (sample_record @ sample_record) \<and>
        strict_prefix sample_record (sample_record @ sample_record)"
    using padded_run_archive
    by (simp add: read_file_def gunzip_def strict_prefix_def sample_record_ne)
  with h1 h2 h3 g padded_run_archive p show ?thesis by blast
qed

text \<open>In every successful cycle the size written into the header is the size of the
  database file as the cycle leaves it, after the compaction.\<close>

lemma header_size_is_final_size:
  assumes "optimize_and_dump E db_path w = (w', Inr (Some dump_path))"
  shows "\<exists>f dump_bytes old.
           files w' db_path = Some f \<and>
           files w' dump_path =
             Some (old @ [Member (combined_bytes
                     (metadata_line (clock E db_path) (str_path db_path) (int (st_size E f)))
                     dump_bytes)])"
proof -
  from optimize_and_dump_success[OF assms]
  have d: "with_suffix db_path ''.sql.gz'' = Inr dump_path"
    and b: "snapshot_body E db_path dump_path w = (w', None)" by simp_all
  from snapshot_body_success[OF b] obtain w1 f dump_bytes where
    f: "files w1 db_path = Some f" and
    fw: "files w' = (files w1)(dump_path \<mapsto> read_file w1 dump_path @
         [Member (combined_bytes (metadata_line (clock E db_path) (str_path db_path)
                     (int (st_size E f))) dump_bytes)])" by blast
  have "files w' db_path = Some f" using fw f dump_path_neq_db[OF d] by simp
  with fw show ?thesis by auto
qed

text \<open>
  Claim C1 (\<^verbatim>\<open>size_before_optimization\<close> is the size before compaction), run on the
  sample repository: the database file has 4 bytes before the cycle, the compaction
  leaves 2, the cycle succeeds, and the header written to the archive records 2, the
  size after compaction: line 80 reads the size after \<^verbatim>\<open>VACUUM\<close> has run.
\<close>

theorem recorded_size_is_after_compaction:
  \<open>st_size quiet_env (read_file repo_world repo_db) = 4 \<and>
   snd (optimize_and_dump quiet_env repo_db repo_world) = Inr (Some repo_archive) \<and>
   files (fst (optimize_and_dump quiet_env repo_db repo_world)) repo_archive =
     Some [Member (''{"timestamp":1700000000,"source":"/repo/database.db","size_before_optimization":2}''
                    @ [LF] @ ''COMMIT;'' @ [LF, LF, LF])] \<and>
   st_size quiet_env (read_file (fst (optimize_and_dump quiet_env repo_db repo_world)) repo_db) = 2\<close>
proof -
  have a: "st_size quiet_env (read_file repo_world repo_db) = 4"
    by (simp add: st_size_def seg_len_def read_file_def)
  have b: "snd (optimize_and_dump quiet_env repo_db repo_world) = Inr (Some repo_archive)"
    by (simp add: step_defs)
  have c: "files (fst (optimize_and_dump quiet_env repo_db repo_world)) repo_archive =
     Some [Member sample_record]"
    by (simp add: step_defs sample_record_def)
  have d: "st_size quiet_env (read_file (fst (optimize_and_dump quiet_env repo_db repo_world)) repo_db) = 2"
    by (simp add: step_defs)
  from a b c d show ?thesis by (simp only: sample_record_text)
qed

section \<open>The claims about one snapshot cycle\<close>

lemma variant_env_simps [simp]:
  "connect_fails connect_fails_env p = True"
  "stat_raises connect_fails_env p = False" "stdout_rejects connect_fails_env t = False"
  "stat_raises dump_fails_env p = False" "stdout_rejects dump_fails_env t = False"
  "stat_raises replace_fails_env p = False" "stdout_rejects replace_fails_env t = False"
  "stat_raises no_optimisation_env p = False" "stdout_rejects no_optimisation_env t = False"
  "root stat_denied_env = [''repo'']" "stat_raises stat_denied_env p = (p = repo_db)"
  "cwd dump_fails_env = [''repo'']" "gz_len dump_fails_env = length"
  "connect_fails dump_fails_env p = False"
  "pragma_optimize dump_fails_env p f = (f, False)"
  "commit_fails dump_fails_env p = False"
  "sql_literal_target dump_fails_env n = None"
  "vacuum_into dump_fails_env p f = Into_done [Raw ''db'']"
  "replace_fails dump_fails_env src dst = False"
  "reconnect_fails dump_fails_env p = False"
  "sqlite3_dump dump_fails_env p f = Dump_exit_nonzero"
  "cwd replace_fails_env = [''repo'']" "gz_len replace_fails_env = length"
  "connect_fails replace_fails_env p = False"
  "pragma_optimize replace_fails_env p f = (f, False)"
  "commit_fails replace_fails_env p = False"
  "sql_literal_target replace_fails_env n = None"
  "vacuum_into replace_fails_env p f = Into_done [Raw ''db'']"
  "replace_fails replace_fails_env src dst = True"
  "vacuum replace_fails_env p f = (f, False)"
  "sqlite3_dump replace_fails_env p f = Dump_ok sample_dump"
  "clock replace_fails_env p = 1700000000"
  "gzip_mtime replace_fails_env p = Gz_ok"
  "cwd no_optimisation_env = [''repo'']" "gz_len no_optimisation_env = length"
  "connect_fails no_optimisation_env p = False"
  "pragma_optimize no_optimisation_env p f = (f, True)"
  "commit_fails no_optimisation_env p = False"
  "sql_literal_target no_optimisation_env n = None"
  "vacuum_into no_optimisation_env p f = Into_raised None"
  "vacuum no_optimisation_env p f = (f, True)"
  "sqlite3_dump no_optimisation_env p f = Dump_ok sample_dump"
  "clock no_optimisation_env p = 1700000000"
  "gzip_mtime no_optimisation_env p = Gz_ok"
  by (simp_all add: connect_fails_env_def dump_fails_env_def replace_fails_env_def
      no_optimisation_env_def stat_denied_env_def)

lemma empty_world_simps [simp]:
  "files empty_world = Map.empty" "log empty_world = []" "calls empty_world = []"
  by (simp_all add: empty_world_def)


lemma optimize_and_dump_present:
  assumes "exists_path w db_path" and "with_suffix db_path ''.sql.gz'' = Inr dump_path"
    and "snapshot_body E db_path dump_path w = (w', r)"
  shows "optimize_and_dump E db_path w =
           (case r of
              None \<Rightarrow> (w', Inr (Some dump_path))
            | Some e \<Rightarrow>
                (say (if e = CalledProcessError then Error_dumping db_path e
                      else Unexpected_error db_path e) w', Inr None))"
  using assms
  by (auto simp: optimize_and_dump_def path_exists_def exists_path_def split: option.splits)

lemma path_exists_absent:
  "\<not> exists_path w p \<Longrightarrow> \<not> stat_raises E p \<Longrightarrow> path_exists E w p = Inr False"
  by (simp add: path_exists_def exists_path_def)

lemma path_exists_raises:
  "\<not> exists_path w p \<Longrightarrow> stat_raises E p \<Longrightarrow> path_exists E w p = Inl OSError"
  by (simp add: path_exists_def exists_path_def)

lemma optimize_and_dump_absent:
  "path_exists E w db_path = Inr False \<Longrightarrow> optimize_and_dump E db_path w = (w, Inr None)"
  by (simp add: optimize_and_dump_def)

lemma optimize_and_dump_stat_raises:
  "path_exists E w db_path = Inl e \<Longrightarrow> optimize_and_dump E db_path w = (w, Inl e)"
  by (simp add: optimize_and_dump_def)

lemma snapshot_body_compact_raised:
  assumes "compact E db_path w = (w1, Some e)"
  shows "snapshot_body E db_path dump_path w = (w1, Some e)"
  using assms by (simp add: snapshot_body_def)

lemma snapshot_body_calls:
  assumes "compact E db_path w = (w1, None)"
    and "snapshot_body E db_path dump_path w = (w', r)"
  shows "calls w' = calls w @ [Dump_call db_path]"
proof -
  let ?w2 = "w1\<lparr>calls := calls w1 @ [Dump_call db_path]\<rparr>"
  have c2: "calls ?w2 = calls w @ [Dump_call db_path]"
    using compact_log(2)[OF assms(1)] by simp
  show ?thesis
  proof (cases "sqlite3_dump E db_path (read_file ?w2 db_path)")
    case (Dump_ok dump_bytes)
    show ?thesis
    proof (cases "files ?w2 db_path")
      case None
      with assms Dump_ok c2 show ?thesis by (auto simp: snapshot_body_def Let_def)
    next
      case (Some f)
      let ?rec = "combined_bytes (metadata_line (clock E db_path) (str_path db_path)
                     (int (st_size E f))) dump_bytes"
      obtain w3 r3 where g: "gzip_append E dump_path ?rec ?w2 = (w3, r3)"
        by (cases "gzip_append E dump_path ?rec ?w2")
      from assms Dump_ok Some g have "calls w' = calls w3"
        by (auto simp: snapshot_body_def Let_def split: option.splits if_splits)
      with gzip_append_frame(3)[OF g] c2 show ?thesis by simp
    qed
  qed (use assms c2 in \<open>auto simp: snapshot_body_def Let_def\<close>)
qed

lemma snapshot_body_dump_exit:
  assumes "compact E db_path w = (w1, None)"
    and "sqlite3_dump E db_path (read_file w1 db_path) = Dump_exit_nonzero"
  shows "snapshot_body E db_path dump_path w =
           (w1\<lparr>calls := calls w1 @ [Dump_call db_path]\<rparr>, Some CalledProcessError)"
proof -
  have rf: "read_file (w1\<lparr>calls := calls w1 @ [Dump_call db_path]\<rparr>) = read_file w1"
    by (auto simp: read_file_def fun_eq_iff)
  show ?thesis using assms by (simp add: snapshot_body_def Let_def rf)
qed

text \<open>
  Claim C5 (the Compactor never raises and the dump always follows), as stated. It fails
  when the first \<^verbatim>\<open>sqlite3.connect\<close> (line 55) raises: the compaction ends with that
  exception, the per-file handler reports it, the cycle returns \<^verbatim>\<open>None\<close>, and the
  dump subprocess is never started.
\<close>

theorem compaction_never_raises_counterexample:
  "exists_path repo_world repo_db \<and>
   snd (compact connect_fails_env repo_db repo_world) = Some SqliteError \<and>
   snd (optimize_and_dump connect_fails_env repo_db repo_world) = Inr None \<and>
   calls (fst (optimize_and_dump connect_fails_env repo_db repo_world)) = [] \<and>
   log (fst (optimize_and_dump connect_fails_env repo_db repo_world))
     = [Unexpected_error repo_db SqliteError]"
  by (simp add: step_defs)

text \<open>
  Claim C5, amended. For a database file that exists: when the first connection and the
  commit after \<^verbatim>\<open>PRAGMA optimize\<close> succeed, the compaction ends without an exception
  whatever \<^verbatim>\<open>PRAGMA optimize\<close>, \<^verbatim>\<open>VACUUM INTO\<close>, the replacement, the reconnection
  and the fallback \<^verbatim>\<open>VACUUM\<close> do, and the dump subprocess is started once; when the
  first connection or that commit raises, the exception is caught by the per-file
  handler, which reports an unexpected error and returns \<^verbatim>\<open>None\<close> without starting
  the dump.
\<close>

theorem optimization_failures_swallowed:
  assumes "exists_path w db_path" and "with_suffix db_path ''.sql.gz'' = Inr dump_path"
  shows "(\<not> connect_fails E db_path \<and> \<not> commit_fails E db_path \<longrightarrow>
            snd (compact E db_path w) = None \<and>
            calls (fst (optimize_and_dump E db_path w)) = calls w @ [Dump_call db_path]) \<and>
         (connect_fails E db_path \<or> commit_fails E db_path \<longrightarrow>
            snd (compact E db_path w) = Some SqliteError \<and>
            snd (optimize_and_dump E db_path w) = Inr None \<and>
            calls (fst (optimize_and_dump E db_path w)) = calls w \<and>
            log (fst (optimize_and_dump E db_path w)) =
              log w @ [Unexpected_error db_path SqliteError])"
proof (intro conjI impI)
  assume ok: "\<not> connect_fails E db_path \<and> \<not> commit_fails E db_path"
  then show n: "snd (compact E db_path w) = None" by (simp add: compact_result)
  obtain w1 where c: "compact E db_path w = (w1, None)"
    using n by (cases "compact E db_path w") auto
  obtain w' r where b: "snapshot_body E db_path dump_path w = (w', r)"
    by (cases "snapshot_body E db_path dump_path w")
  from snapshot_body_calls[OF c b] optimize_and_dump_present[OF assms b]
  show "calls (fst (optimize_and_dump E db_path w)) = calls w @ [Dump_call db_path]"
    by (simp split: option.splits)
next
  assume bad: "connect_fails E db_path \<or> commit_fails E db_path"
  then show s: "snd (compact E db_path w) = Some SqliteError" by (simp add: compact_result)
  obtain w1 where c: "compact E db_path w = (w1, Some SqliteError)"
    using s by (cases "compact E db_path w") auto
  note b = snapshot_body_compact_raised[OF c, of dump_path]
  from optimize_and_dump_present[OF assms b]
  have o: "optimize_and_dump E db_path w = (say (Unexpected_error db_path SqliteError) w1, Inr None)"
    by simp
  show "snd (optimize_and_dump E db_path w) = Inr None" by (simp add: o)
  show "calls (fst (optimize_and_dump E db_path w)) = calls w"
    using compact_log(2)[OF c] by (simp add: o)
  show "log (fst (optimize_and_dump E db_path w)) = log w @ [Unexpected_error db_path SqliteError]"
    using compact_log(1)[OF c] by (simp add: o)
qed

text \<open>Every optimisation statement raises; the connection and the commit succeed.\<close>

theorem optimization_failures_swallowed_witness:
  "exists_path repo_world repo_db \<and> with_suffix repo_db ''.sql.gz'' = Inr repo_archive \<and>
   \<not> connect_fails no_optimisation_env repo_db \<and>
   \<not> commit_fails no_optimisation_env repo_db \<and>
   snd (compact no_optimisation_env repo_db repo_world) = None \<and>
   calls (fst (optimize_and_dump no_optimisation_env repo_db repo_world))
     = [Dump_call repo_db]"
proof -
  let ?E = "no_optimisation_env"
  have h1: "exists_path repo_world repo_db" by (simp add: exists_path_def)
  have h2: "with_suffix repo_db ''.sql.gz'' = Inr repo_archive" by simp
  have h3: "\<not> connect_fails ?E repo_db \<and> \<not> commit_fails ?E repo_db" by simp
  from optimization_failures_swallowed[OF h1 h2, of ?E] h3
  have "snd (compact ?E repo_db repo_world) = None \<and>
        calls (fst (optimize_and_dump ?E repo_db repo_world)) = calls repo_world @ [Dump_call repo_db]"
    by blast
  with h1 h2 h3 show ?thesis by simp
qed

text \<open>
  Claim C6 (an extraction failure is distinguishable by the caller from a missing
  file), as stated. It fails on the value returned: with the database present and the
  dump subprocess exiting non-zero, and with no database at all, \<^verbatim>\<open>optimize_and_dump\<close>
  returns the same \<^verbatim>\<open>None\<close>.
\<close>

theorem extraction_failure_result_counterexample:
  "exists_path repo_world repo_db \<and>
   \<not> exists_path empty_world repo_db \<and>
   snd (optimize_and_dump dump_fails_env repo_db repo_world)
     = Inr None \<and>
   snd (optimize_and_dump dump_fails_env repo_db
          empty_world)
     = Inr None"
  by (simp add: step_defs)

text \<open>
  Claim C6, amended. A database file that does not exist changes nothing and gives
  \<^verbatim>\<open>None\<close>, unless the operating system refuses to examine the path: then the error
  of line 51 leaves the function. When the file exists, its name has no single quote, the compaction ends
  without an exception and the dump subprocess exits non-zero, the result is \<^verbatim>\<open>None\<close>
  as well; the failure shows in the message \<^verbatim>\<open>Error dumping\<close> alone, and the archive is
  left as it was.
\<close>

theorem extraction_failure_logged_not_appended:
  assumes "exists_path w db_path" and "with_suffix db_path ''.sql.gz'' = Inr dump_path"
    and "compact E db_path w = (w1, None)"
    and "sqlite3_dump E db_path (read_file w1 db_path) = Dump_exit_nonzero"
    and "CHR 0x27 \<notin> set (last db_path)"
  shows "snd (optimize_and_dump E db_path w) = Inr None \<and>
         log (fst (optimize_and_dump E db_path w)) =
           log w @ [Error_dumping db_path CalledProcessError] \<and>
         files (fst (optimize_and_dump E db_path w)) dump_path = files w dump_path \<and>
         (\<forall>w0. \<not> exists_path w0 db_path \<longrightarrow>
               optimize_and_dump E db_path w0 =
                 (w0, if stat_raises E db_path then Inl OSError else Inr None))"
proof -
  note b = snapshot_body_dump_exit[OF assms(3,4), of dump_path]
  from optimize_and_dump_present[OF assms(1,2) b]
  have o: "optimize_and_dump E db_path w =
      (say (Error_dumping db_path CalledProcessError)
         (w1\<lparr>calls := calls w1 @ [Dump_call db_path]\<rparr>), Inr None)" by simp
  have "files w1 dump_path = files w dump_path"
    by (rule compact_keeps_archive[OF assms(3,2,5)])
  then show ?thesis
    using compact_log(1)[OF assms(3)]
    by (simp add: o optimize_and_dump_absent optimize_and_dump_stat_raises
        path_exists_absent path_exists_raises)
qed

text \<open>The sample repository with an archive, and a dump subprocess that exits non-zero.\<close>

theorem extraction_failure_logged_not_appended_witness:
  "exists_path archived_world repo_db \<and> with_suffix repo_db ''.sql.gz'' = Inr repo_archive \<and>
   snd (compact dump_fails_env repo_db archived_world) = None \<and>
   sqlite3_dump dump_fails_env repo_db
      (read_file (fst (compact dump_fails_env repo_db
                          archived_world)) repo_db) = Dump_exit_nonzero \<and>
   CHR 0x27 \<notin> set (last repo_db) \<and>
   snd (optimize_and_dump dump_fails_env repo_db archived_world)
     = Inr None \<and>
   log (fst (optimize_and_dump dump_fails_env repo_db
               archived_world))
     = [Error_dumping repo_db CalledProcessError] \<and>
   files (fst (optimize_and_dump dump_fails_env repo_db
                 archived_world)) repo_archive
     = Some [Member sample_record]"
proof -
  let ?E = "dump_fails_env"
  have h1: "exists_path archived_world repo_db" by (simp add: exists_path_def)
  have h2: "with_suffix repo_db ''.sql.gz'' = Inr repo_archive" by simp
  have s: "snd (compact ?E repo_db archived_world) = None" by (simp add: compact_result)
  then have h3: "compact ?E repo_db archived_world = (fst (compact ?E repo_db archived_world), None)"
    by (metis prod.collapse)
  have h4: "sqlite3_dump ?E repo_db (read_file (fst (compact ?E repo_db archived_world)) repo_db)
      = Dump_exit_nonzero" by simp
  have h5: "CHR 0x27 \<notin> set (last repo_db)" by simp
  from extraction_failure_logged_not_appended[OF h1 h2 h3 h4 h5]
  show ?thesis using h1 h2 s h4 h5 by simp
qed



text \<open>
  Claim C9 (the temporary file is renamed or gone on every exit path), as stated. It
  fails when \<^verbatim>\<open>temp_file.replace\<close> raises: there was no temporary file before the
  cycle, the cycle completes and appends its record, and afterwards the temporary file
  holds the compacted copy while the database file is the old one.
\<close>

theorem temp_file_orphaned_counterexample:
  "files repo_world repo_temp = None \<and>
   with_suffix repo_db ''.vacuuming'' = Inr repo_temp \<and>
   snd (optimize_and_dump replace_fails_env repo_db repo_world)
     = Inr (Some repo_archive) \<and>
   files (fst (optimize_and_dump replace_fails_env repo_db repo_world))
     repo_temp = Some [Raw ''db''] \<and>
   files (fst (optimize_and_dump replace_fails_env repo_db repo_world))
     repo_db = Some [Raw ''d-b-'']"
  by (simp add: step_defs)

text \<open>
  Claim C9, amended. Run from the database's directory, with a temporary name free of
  single quotes and no non-empty file in its place, once \<^verbatim>\<open>VACUUM INTO\<close> has written
  the compacted copy the atomic step ends in one of two ways: the replacement succeeds,
  the temporary file is gone and the database file holds the copy; or the replacement
  raises, the step ends with that exception, the temporary file stays with the copy in
  it and the database file is untouched. The script has no step that removes it.
\<close>

theorem temp_file_renamed_or_left:
  assumes "with_suffix db_path ''.vacuuming'' = Inr temp_file"
    and "temp_file \<noteq> db_path"
    and "CHR 0x27 \<notin> set (last temp_file)"
    and "cwd E = butlast db_path"
    and "\<not> (exists_path w temp_file \<and> 0 < st_size E (read_file w temp_file))"
    and "vacuum_into E db_path (read_file w db_path) = Into_done img"
    and "atomic_compaction E db_path w = (w', raised, con_open)"
  shows "if replace_fails E temp_file db_path
         then raised \<and> files w' temp_file = Some img \<and> files w' db_path = files w db_path
         else files w' temp_file = None \<and> files w' db_path = Some img"
proof -
  have t: "cwd E @ [last temp_file] = temp_file"
    using with_suffix_InrD[OF assms(1)] assms(4) by simp
  have it: "into_target E (last temp_file) = Some temp_file"
    using assms(3) t by (simp add: into_target_def)
  have v: "vacuum_into_step E db_path (last temp_file) w = (write_file temp_file img w, False)"
    using assms(5,6) it by (simp add: vacuum_into_step_def)
  show ?thesis
    using assms(1,2,7) v
    by (auto simp: atomic_compaction_def replace_step_def split: if_splits)
qed

text \<open>The sample repository: the replacement succeeds.\<close>

theorem temp_file_renamed_or_left_witness:
  "with_suffix repo_db ''.vacuuming'' = Inr repo_temp \<and> repo_temp \<noteq> repo_db \<and>
   CHR 0x27 \<notin> set (last repo_temp) \<and> cwd quiet_env = butlast repo_db \<and>
   \<not> (exists_path repo_world repo_temp \<and> 0 < st_size quiet_env (read_file repo_world repo_temp)) \<and>
   vacuum_into quiet_env repo_db (read_file repo_world repo_db) = Into_done [Raw ''db''] \<and>
   \<not> replace_fails quiet_env repo_temp repo_db \<and>
   files (fst (atomic_compaction quiet_env repo_db repo_world)) repo_temp = None \<and>
   files (fst (atomic_compaction quiet_env repo_db repo_world)) repo_db = Some [Raw ''db'']"
proof -
  have h1: "with_suffix repo_db ''.vacuuming'' = Inr repo_temp" by simp
  have h2: "repo_temp \<noteq> repo_db" by simp
  have h3: "CHR 0x27 \<notin> set (last repo_temp)" by simp
  have h4: "cwd quiet_env = butlast repo_db" by (simp add: repo_db_def)
  have h5: "\<not> (exists_path repo_world repo_temp \<and>
               0 < st_size quiet_env (read_file repo_world repo_temp))"
    by (simp add: exists_path_def)
  have h6: "vacuum_into quiet_env repo_db (read_file repo_world repo_db) = Into_done [Raw ''db'']"
    by simp
  have h7: "atomic_compaction quiet_env repo_db repo_world =
      (fst (atomic_compaction quiet_env repo_db repo_world),
       fst (snd (atomic_compaction quiet_env repo_db repo_world)),
       snd (snd (atomic_compaction quiet_env repo_db repo_world)))" by simp
  from temp_file_renamed_or_left[OF h1 h2 h3 h4 h5 h6 h7]
  show ?thesis using h1 h2 h3 h4 h5 h6 by simp
qed


section \<open>The claims about the orchestrator and the entry point\<close>

subsection \<open>Messages and calls of one cycle\<close>




subsection \<open>The loop\<close>





lemma DB_FILES_paths:
  "pjoin r ''database.db'' = r @ [''database.db'']"
  "pjoin r ''database2.db'' = r @ [''database2.db'']"
  by (simp_all add: pjoin_def path_parts_def)



lemma stat_denied_env_simps [simp]:
  "cwd stat_denied_env = [''repo'']" "gz_len stat_denied_env = length"
  "stdout_rejects stat_denied_env t = False"
  "connect_fails stat_denied_env p = False"
  "pragma_optimize stat_denied_env p f = (f, False)"
  "commit_fails stat_denied_env p = False"
  "sql_literal_target stat_denied_env n = None"
  "vacuum_into stat_denied_env p f = Into_done [Raw ''db'']"
  "replace_fails stat_denied_env src dst = False"
  "reconnect_fails stat_denied_env p = False"
  "vacuum stat_denied_env p f = (f, False)"
  "sqlite3_dump stat_denied_env p f = Dump_ok sample_dump"
  "clock stat_denied_env p = 1700000000"
  "gzip_mtime stat_denied_env p = Gz_ok"
  "gzip_plain stat_denied_env p = Gz_ok"
  by (simp_all add: stat_denied_env_def quiet_env_def)

lemma second_db_world_simps [simp]:
  "files second_db_world = [repo_db2 \<mapsto> [Raw ''d-b-'']]"
  "log second_db_world = []" "calls second_db_world = []"
  by (simp_all add: second_db_world_def)

lemma repo_db2_simps [simp]:
  "with_suffix repo_db2 ''.sql.gz'' = Inr repo_archive2"
  "with_suffix repo_db2 ''.vacuuming'' = Inr [''repo'', ''database2.vacuuming'']"
  "repo_db2 \<noteq> repo_db" "repo_db \<noteq> repo_db2" "repo_archive2 \<noteq> repo_db" "repo_archive2 \<noteq> repo_db2"
  "repo_archive \<noteq> repo_db2" "repo_archive2 \<noteq> repo_archive" "repo_archive \<noteq> repo_archive2"
  "repo_temp \<noteq> repo_db2" "repo_temp \<noteq> repo_archive2"
  "[''repo'', ''database2.vacuuming''] \<noteq> repo_db" "[''repo'', ''database2.vacuuming''] \<noteq> repo_db2"
  "[''repo'', ''database2.vacuuming''] \<noteq> repo_archive"
  "[''repo'', ''database2.vacuuming''] \<noteq> repo_archive2"
  "[''repo'', ''database2.vacuuming''] \<noteq> repo_temp"
  "str_path repo_db2 = ''/repo/database2.db''"
  "last repo_archive2 = ''database2.sql.gz''"
  by (simp_all add: with_suffix_def repo_db_def repo_db2_def repo_archive_def repo_archive2_def
      repo_temp_def name_with_suffix_def py_suffix_def str_path_def)

lemma repo_joined [simp]:
  "pjoin [''repo''] ''database.db'' = repo_db" "pjoin [''repo''] ''database2.db'' = repo_db2"
  by (simp_all add: DB_FILES_paths repo_db_def repo_db2_def)




lemma two_db_world_simps [simp]:
  "files two_db_world = [repo_db \<mapsto> [Raw ''d-b-''], repo_db2 \<mapsto> [Raw ''d-b-'']]"
  "log two_db_world = []" "calls two_db_world = []"
  by (simp_all add: two_db_world_def)

lemma first_dump_fails_env_simps [simp]:
  "root first_dump_fails_env = [''repo'']" "cwd first_dump_fails_env = [''repo'']"
  "stat_raises first_dump_fails_env p = False" "stdout_rejects first_dump_fails_env t = False"
  "gz_len first_dump_fails_env = length"
  "connect_fails first_dump_fails_env p = False"
  "pragma_optimize first_dump_fails_env p f = (f, False)"
  "commit_fails first_dump_fails_env p = False"
  "sql_literal_target first_dump_fails_env n = None"
  "vacuum_into first_dump_fails_env p f = Into_done [Raw ''db'']"
  "replace_fails first_dump_fails_env src dst = False"
  "reconnect_fails first_dump_fails_env p = False"
  "vacuum first_dump_fails_env p f = (f, False)"
  "sqlite3_dump first_dump_fails_env p f =
     (if p = repo_db then Dump_exit_nonzero else Dump_ok sample_dump)"
  "clock first_dump_fails_env p = 1700000000"
  "gzip_mtime first_dump_fails_env p = Gz_ok"
  "gzip_plain first_dump_fails_env p = Gz_ok"
  by (simp_all add: first_dump_fails_env_def)












end
